theory Spec2Isabelle
  imports Complex_Main "HOL-Library.Word" "HOL-Library.Log_Nat"
begin

section \<open>Bytes and little-endian object representations\<close>

text \<open>
  A \<open>char\<close> of the source is a byte. The source copies the object representation of
  \<open>uint16_t\<close>, \<open>uint32_t\<close> and of the sample type \<open>T\<close> to and from byte buffers
  (\<open>reinterpret_cast\<close>, \<open>memcpy\<close>); the host is taken to be little-endian, as the file
  format is.
\<close>

type_synonym byte = "8 word"

fun le_nat :: "byte list \<Rightarrow> nat" where
  "le_nat [] = 0"
| "le_nat (b # bs) = unat b + 256 * le_nat bs"

fun nat_le :: "nat \<Rightarrow> nat \<Rightarrow> byte list" where
  "nat_le 0 v = []"
| "nat_le (Suc k) v = of_nat (v mod 256) # nat_le k (v div 256)"

definition u16_bytes :: "16 word \<Rightarrow> byte list" where
  "u16_bytes w = nat_le 2 (unat w)"

definition u32_bytes :: "32 word \<Rightarrow> byte list" where
  "u32_bytes w = nat_le 4 (unat w)"

definition bytes_u16 :: "byte list \<Rightarrow> 16 word" where
  "bytes_u16 bs = of_nat (le_nat bs)"

definition bytes_u32 :: "byte list \<Rightarrow> 32 word" where
  "bytes_u32 bs = of_nat (le_nat bs)"

text \<open>The four-character tags of the format, as bytes.\<close>

definition RIFF :: "byte list" where "RIFF = [0x52, 0x49, 0x46, 0x46]"
definition WAVE :: "byte list" where "WAVE = [0x57, 0x41, 0x56, 0x45]"
definition fmt_tag :: "byte list" where "fmt_tag = [0x66, 0x6D, 0x74, 0x20]"
definition data_tag :: "byte list" where "data_tag = [0x64, 0x61, 0x74, 0x61]"

section \<open>The input stream\<close>

text \<open>
  \<open>std::ifstream\<close> as the program uses it: the bytes from the read position on, and the
  fail bit. \<open>read\<close> is the only operation of the program that sets the end-of-file bit, and
  it sets the fail bit with it, so one flag is enough; \<open>operator bool\<close> is its negation.
  A read on a failed stream extracts nothing; a short read extracts what is left and fails
  the stream. \<open>seekg\<close> does nothing on a failed stream and may move past the end of the
  file, where the next read finds nothing.
\<close>

record istream =
  buf :: "byte list"
  failbit :: bool

definition ifstream :: "byte list \<Rightarrow> istream" where
  "ifstream bs = \<lparr>buf = bs, failbit = False\<rparr>"

definition stream_read :: "nat \<Rightarrow> istream \<Rightarrow> byte list \<times> istream" where
  "stream_read n s =
     (if failbit s then ([], s)
      else (take n (buf s), \<lparr>buf = drop n (buf s), failbit = (length (buf s) < n)\<rparr>))"

definition seekg_cur :: "nat \<Rightarrow> istream \<Rightarrow> istream" where
  "seekg_cur n s = (if failbit s then s else s\<lparr>buf := drop n (buf s)\<rparr>)"

text \<open>
  The destination of a read keeps its old bytes beyond the \<open>gcount\<close> bytes extracted.
\<close>

definition overwrite :: "byte list \<Rightarrow> byte list \<Rightarrow> byte list" where
  "overwrite got old = got @ drop (length got) old"

definition read_u16 :: "16 word \<Rightarrow> istream \<Rightarrow> 16 word \<times> istream" where
  "read_u16 old s =
     (case stream_read 2 s of (got, s') \<Rightarrow> (bytes_u16 (overwrite got (u16_bytes old)), s'))"

definition read_u32 :: "32 word \<Rightarrow> istream \<Rightarrow> 32 word \<times> istream" where
  "read_u32 old s =
     (case stream_read 4 s of (got, s') \<Rightarrow> (bytes_u32 (overwrite got (u32_bytes old)), s'))"

section \<open>WavFile\<close>

record WavFile =
  chunk_size :: "32 word"
  num_channels :: "16 word"
  sample_rate :: "32 word"
  block_align :: "16 word"
  bits_per_sample :: "16 word"
  data_size :: "32 word"
  num_samples :: "32 word"
  raw_data :: "byte list"

definition WavFile_default :: WavFile where
  "WavFile_default =
     \<lparr>chunk_size = 0, num_channels = 0, sample_rate = 0, block_align = 0,
      bits_per_sample = 0, data_size = 0, num_samples = 0, raw_data = []\<rparr>"

text \<open>\<open>std::vector<char>::resize\<close>: keeps the front, fills with zero bytes.\<close>

definition resize :: "nat \<Rightarrow> byte list \<Rightarrow> byte list" where
  "resize n xs = take n xs @ replicate (n - length xs) 0"

subsection \<open>WavFile::read\<close>

text \<open>
  What \<open>read\<close> returns: \<open>false\<close> with one of its four messages, or undefined behaviour at
  the division that computes \<open>num_samples\<close>, or \<open>true\<close> with the object filled in.
\<close>

datatype read_error =
  CouldNotOpen | NotRIFF | NotWAVE | MissingFmtChunk | MissingDataChunk | DivisionByZero

text \<open>The body of the branch for the \<open>fmt\<close> tag.\<close>

definition read_fmt :: "32 word \<Rightarrow> istream \<Rightarrow> WavFile \<Rightarrow> WavFile \<times> istream" where
  "read_fmt subchunk_size file wav =
     (case read_u16 0 file of (audioFormat, f1) \<Rightarrow>
      case read_u16 (num_channels wav) f1 of (nc, f2) \<Rightarrow>
      case read_u32 (sample_rate wav) f2 of (sr, f3) \<Rightarrow>
      case read_u16 (block_align wav) (seekg_cur 4 f3) of (ba, f4) \<Rightarrow>
      case read_u16 (bits_per_sample wav) f4 of (bps, f5) \<Rightarrow>
        (wav\<lparr>num_channels := nc, sample_rate := sr, block_align := ba, bits_per_sample := bps\<rparr>,
         if 16 < subchunk_size then seekg_cur (unat (subchunk_size - 16)) f5 else f5))"

text \<open>The body of the branch for the \<open>data\<close> tag.\<close>

definition read_data :: "32 word \<Rightarrow> istream \<Rightarrow> WavFile \<Rightarrow> WavFile \<times> istream" where
  "read_data subchunk_size file wav =
     (case stream_read (unat subchunk_size) file of (got, f1) \<Rightarrow>
        (wav\<lparr>data_size := subchunk_size,
            raw_data := overwrite got (resize (unat subchunk_size) (raw_data wav))\<rparr>, f1))"

lemma stream_read_buf_le:
  "length (buf (snd (stream_read n s))) \<le> length (buf s)"
  by (simp add: stream_read_def)

lemma stream_read_full:
  "stream_read n s = (got, s') \<Longrightarrow> length got = n \<Longrightarrow> length (buf s') + n = length (buf s) \<or> n = 0"
  by (auto simp: stream_read_def split: if_splits)

lemma seekg_cur_buf_le: "length (buf (seekg_cur n s)) \<le> length (buf s)"
  by (simp add: seekg_cur_def)

lemma read_u16_buf_le: "length (buf (snd (read_u16 old s))) \<le> length (buf s)"
  by (simp add: read_u16_def stream_read_def)

lemma read_u32_buf_le: "length (buf (snd (read_u32 old s))) \<le> length (buf s)"
  by (simp add: read_u32_def stream_read_def)

lemma read_fmt_buf_le: "length (buf (snd (read_fmt n s wav))) \<le> length (buf s)"
proof -
  obtain a f1 where 1: "read_u16 0 s = (a, f1)" by force
  obtain b f2 where 2: "read_u16 (num_channels wav) f1 = (b, f2)" by force
  obtain c f3 where 3: "read_u32 (sample_rate wav) f2 = (c, f3)" by force
  obtain d f4 where 4: "read_u16 (block_align wav) (seekg_cur 4 f3) = (d, f4)" by force
  obtain e f5 where 5: "read_u16 (bits_per_sample wav) f4 = (e, f5)" by force
  have "length (buf f1) \<le> length (buf s)"
    using read_u16_buf_le [of 0 s] 1 by simp
  moreover have "length (buf f2) \<le> length (buf f1)"
    using read_u16_buf_le [of "num_channels wav" f1] 2 by simp
  moreover have "length (buf f3) \<le> length (buf f2)"
    using read_u32_buf_le [of "sample_rate wav" f2] 3 by simp
  moreover have "length (buf f4) \<le> length (buf f3)"
    using read_u16_buf_le [of "block_align wav" "seekg_cur 4 f3"] 4 seekg_cur_buf_le [of 4 f3]
    by simp
  moreover have "length (buf f5) \<le> length (buf f4)"
    using read_u16_buf_le [of "bits_per_sample wav" f4] 5 by simp
  ultimately have "length (buf f5) \<le> length (buf s)"
    by linarith
  moreover have "length (buf (seekg_cur m f5)) \<le> length (buf f5)" for m
    by (rule seekg_cur_buf_le)
  ultimately show ?thesis
    by (auto simp: read_fmt_def 1 2 3 4 5 intro: le_trans)
qed

lemma read_data_buf_le: "length (buf (snd (read_data n s wav))) \<le> length (buf s)"
  by (simp add: read_data_def stream_read_def)

text \<open>
  The loop over the subchunks, with the locals \<open>foundFmt\<close> and \<open>foundData\<close>. Every
  iteration that does not leave the loop has extracted the four bytes of a tag.
\<close>

function chunk_loop :: "istream \<Rightarrow> WavFile \<Rightarrow> bool \<Rightarrow> bool \<Rightarrow> WavFile \<times> bool \<times> bool" where
  "chunk_loop file wav foundFmt foundData =
     (if \<not> failbit file \<and> (\<not> foundFmt \<or> \<not> foundData) then
        (if length (fst (stream_read 4 file)) < 4 then (wav, foundFmt, foundData)
         else
           let subchunkID = fst (stream_read 4 file);
               f1 = snd (stream_read 4 file);
               subchunk_size = fst (read_u32 0 f1);
               f2 = snd (read_u32 0 f1)
           in if subchunkID = fmt_tag then
                chunk_loop (snd (read_fmt subchunk_size f2 wav))
                  (fst (read_fmt subchunk_size f2 wav)) True foundData
              else if subchunkID = data_tag then
                chunk_loop (snd (read_data subchunk_size f2 wav))
                  (fst (read_data subchunk_size f2 wav)) foundFmt True
              else chunk_loop (seekg_cur (unat subchunk_size) f2) wav foundFmt foundData)
      else (wav, foundFmt, foundData))"
  by pat_completeness auto

lemma tag_read_shrinks:
  assumes "\<not> length (fst (stream_read 4 file)) < 4"
  shows "length (buf (snd (read_u32 old (snd (stream_read 4 file))))) < length (buf file)"
proof -
  obtain got s' where r: "stream_read 4 file = (got, s')" by force
  with assms have "length got = 4"
    by (auto simp: stream_read_def split: if_splits)
  with r have "length (buf s') + 4 = length (buf file)"
    using stream_read_full by fastforce
  moreover have "length (buf (snd (read_u32 old s'))) \<le> length (buf s')"
    by (rule read_u32_buf_le)
  ultimately show ?thesis using r by simp
qed

lemma loop_fmt_shrinks:
  "\<not> length (fst (stream_read 4 f)) < 4 \<Longrightarrow>
   length (buf (snd (read_fmt sz (snd (read_u32 old (snd (stream_read 4 f)))) wav)))
     < length (buf f)"
  using tag_read_shrinks [of f old]
    read_fmt_buf_le [of sz "snd (read_u32 old (snd (stream_read 4 f)))" wav]
  by simp

lemma loop_data_shrinks:
  "\<not> length (fst (stream_read 4 f)) < 4 \<Longrightarrow>
   length (buf (snd (read_data sz (snd (read_u32 old (snd (stream_read 4 f)))) wav)))
     < length (buf f)"
  using tag_read_shrinks [of f old]
    read_data_buf_le [of sz "snd (read_u32 old (snd (stream_read 4 f)))" wav]
  by simp

lemma loop_skip_shrinks:
  "\<not> length (fst (stream_read 4 f)) < 4 \<Longrightarrow>
   length (buf (seekg_cur n (snd (read_u32 old (snd (stream_read 4 f))))))
     < length (buf f)"
  using tag_read_shrinks [of f old]
    seekg_cur_buf_le [of n "snd (read_u32 old (snd (stream_read 4 f)))"]
  by simp

termination chunk_loop
  by (relation "measure (\<lambda>(file, wav, ff, fd). length (buf file))")
    (simp_all add: loop_fmt_shrinks loop_data_shrinks loop_skip_shrinks)

declare chunk_loop.simps [simp del]

text \<open>
  \<open>read\<close> on the content of the file at \<open>filePath\<close> (\<open>None\<close> when it cannot be
  opened) and the object it is called on.
\<close>

definition read :: "byte list option \<Rightarrow> WavFile \<Rightarrow> read_error + WavFile" where
  "read content wav =
     (case content of
        None \<Rightarrow> Inl CouldNotOpen
      | Some bs \<Rightarrow>
         (case stream_read 4 (ifstream bs) of (chunkID, f1) \<Rightarrow>
          if overwrite chunkID [0, 0, 0, 0] \<noteq> RIFF then Inl NotRIFF
          else
            case read_u32 (chunk_size wav) f1 of (cs, f2) \<Rightarrow>
            case stream_read 4 f2 of (format, f3) \<Rightarrow>
            if overwrite format [0, 0, 0, 0] \<noteq> WAVE then Inl NotWAVE
            else
              case chunk_loop f3 (wav\<lparr>chunk_size := cs\<rparr>) False False of
                (wav', foundFmt, foundData) \<Rightarrow>
                  if \<not> foundFmt then Inl MissingFmtChunk
                  else if \<not> foundData then Inl MissingDataChunk
                  else if block_align wav' = 0 then Inl DivisionByZero
                  else Inr (wav'\<lparr>num_samples := data_size wav' div ucast (block_align wav')\<rparr>)))"

definition parse :: "byte list \<Rightarrow> read_error + WavFile" where
  "parse bs = read (Some bs) WavFile_default"

subsection \<open>Streams built from chunks\<close>

text \<open>Streams built from chunks, for stating what \<open>read\<close> does on them.\<close>

definition riff_header :: "32 word \<Rightarrow> byte list" where
  "riff_header cs = RIFF @ u32_bytes cs @ WAVE"

definition fmt_body :: "16 word \<Rightarrow> 16 word \<Rightarrow> 32 word \<Rightarrow> 32 word \<Rightarrow> 16 word \<Rightarrow> 16 word \<Rightarrow> byte list" where
  "fmt_body audioFormat nc sr byteRate ba bps =
     u16_bytes audioFormat @ u16_bytes nc @ u32_bytes sr @ u32_bytes byteRate
       @ u16_bytes ba @ u16_bytes bps"

definition chunk :: "byte list \<Rightarrow> byte list \<Rightarrow> byte list" where
  "chunk tag body = tag @ u32_bytes (of_nat (length body)) @ body"

definition skippable :: "byte list \<times> byte list \<Rightarrow> bool" where
  "skippable c \<longleftrightarrow>
     length (fst c) = 4 \<and> fst c \<noteq> fmt_tag \<and> fst c \<noteq> data_tag \<and> length (snd c) < 2 ^ 32"

definition chunks :: "(byte list \<times> byte list) list \<Rightarrow> byte list" where
  "chunks cs = concat (map (\<lambda>c. chunk (fst c) (snd c)) cs)"

definition non_data_chunk :: "byte list \<times> byte list \<Rightarrow> bool" where
  "non_data_chunk c \<longleftrightarrow>
     length (fst c) = 4 \<and> fst c \<noteq> data_tag \<and> length (snd c) < 2 ^ 32 \<and>
     (fst c = fmt_tag \<longrightarrow> 16 \<le> length (snd c))"

section \<open>Memory faults\<close>

text \<open>
  A \<open>memcpy\<close>, a \<open>write\<close> from a buffer or an \<open>operator[]\<close> that leaves its vector is
  undefined behaviour, and so is the conversion of a \<open>double\<close> to an integer type that
  cannot hold its truncated value. The model returns the fault instead of a value.
\<close>

datatype fault = OutOfBounds | CastOutOfRange

definition mem_read :: "byte list \<Rightarrow> nat \<Rightarrow> nat \<Rightarrow> byte list option" where
  "mem_read mem off n = (if off + n \<le> length mem then Some (take n (drop off mem)) else None)"

definition mem_write :: "byte list \<Rightarrow> nat \<Rightarrow> byte list \<Rightarrow> byte list option" where
  "mem_write mem off bs =
     (if off + length bs \<le> length mem
      then Some (take off mem @ bs @ drop (off + length bs) mem) else None)"

subsection \<open>WavFile::save\<close>

datatype save_error = ErrorOpeningOutput | SaveFault fault

text \<open>
  \<open>save\<close>, given whether the output file could be opened; the result is the content
  written to the file.
\<close>

definition save :: "bool \<Rightarrow> WavFile \<Rightarrow> save_error + byte list" where
  "save opened wav =
     (if \<not> opened then Inl ErrorOpeningOutput
      else
        let subchunk1Size = 16 :: 32 word;
            audioFormat = 1 :: 16 word;
            bytesPerSample = bits_per_sample wav div 8;
            localBlockAlign = num_channels wav * bytesPerSample;
            byteRate = sample_rate wav * ucast localBlockAlign
        in case mem_read (raw_data wav) 0 (unat (data_size wav)) of
             None \<Rightarrow> Inl (SaveFault OutOfBounds)
           | Some payload \<Rightarrow>
               Inr (RIFF @ u32_bytes (chunk_size wav) @ WAVE
                    @ fmt_tag @ u32_bytes subchunk1Size @ u16_bytes audioFormat
                    @ u16_bytes (num_channels wav) @ u32_bytes (sample_rate wav)
                    @ u32_bytes byteRate @ u16_bytes localBlockAlign
                    @ u16_bytes (bits_per_sample wav)
                    @ data_tag @ u32_bytes (data_size wav) @ payload))"

section \<open>WavData\<close>

text \<open>
  The sample type \<open>T\<close> of the templates is a parameter of the model: one of the
  fixed-width integer types, with its size in bytes, its signedness and its limits.
  A sample is the integer it denotes; a value of type \<open>T\<close> lies between the limits.
\<close>

datatype ctype = Int8 | Int16 | Int32 | Int64 | UInt8 | UInt16 | UInt32 | UInt64

fun sizeof :: "ctype \<Rightarrow> nat" where
  "sizeof Int8 = 1" | "sizeof Int16 = 2" | "sizeof Int32 = 4" | "sizeof Int64 = 8"
| "sizeof UInt8 = 1" | "sizeof UInt16 = 2" | "sizeof UInt32 = 4" | "sizeof UInt64 = 8"

fun is_signed :: "ctype \<Rightarrow> bool" where
  "is_signed Int8 = True" | "is_signed Int16 = True" | "is_signed Int32 = True"
| "is_signed Int64 = True" | "is_signed UInt8 = False" | "is_signed UInt16 = False"
| "is_signed UInt32 = False" | "is_signed UInt64 = False"

definition numeric_min :: "ctype \<Rightarrow> int" where
  "numeric_min T = (if is_signed T then - (2 ^ (8 * sizeof T - 1)) else 0)"

definition numeric_max :: "ctype \<Rightarrow> int" where
  "numeric_max T = (if is_signed T then 2 ^ (8 * sizeof T - 1) - 1 else 2 ^ (8 * sizeof T) - 1)"

definition in_range :: "ctype \<Rightarrow> int \<Rightarrow> bool" where
  "in_range T v \<longleftrightarrow> numeric_min T \<le> v \<and> v \<le> numeric_max T"

text \<open>The object representation of a \<open>T\<close>: little-endian two's complement.\<close>

definition from_bytes :: "ctype \<Rightarrow> byte list \<Rightarrow> int" where
  "from_bytes T bs =
     (let v = int (le_nat bs)
      in if is_signed T \<and> 2 ^ (8 * sizeof T - 1) \<le> v then v - 2 ^ (8 * sizeof T) else v)"

definition to_bytes :: "ctype \<Rightarrow> int \<Rightarrow> byte list" where
  "to_bytes T v = nat_le (sizeof T) (nat (v mod 2 ^ (8 * sizeof T)))"

record WavData =
  wd_sample_rate :: "32 word"
  wd_num_channels :: "16 word"
  wd_bits_per_sample :: "16 word"
  wd_num_samples :: "32 word"
  channel1 :: "int list"
  channel2 :: "int list"

text \<open>What the constructor prints on the error stream.\<close>

datatype diagnostic = BitDepthMismatch "16 word" nat

subsection \<open>The constructor from a WavFile\<close>

function split_loop ::
  "ctype \<Rightarrow> WavFile \<Rightarrow> nat \<Rightarrow> int list \<Rightarrow> int list \<Rightarrow> fault + int list \<times> int list" where
  "split_loop T wav i ch1 ch2 =
     (if i < unat (num_samples wav) then
        (case mem_read (raw_data wav)
                (unat (of_nat i * ucast (block_align wav) :: 32 word)) (sizeof T) of
           None \<Rightarrow> Inl OutOfBounds
         | Some b1 \<Rightarrow>
             if num_channels wav = 2 then
               (case mem_read (raw_data wav)
                       (unat (of_nat i * ucast (block_align wav) :: 32 word) + sizeof T)
                       (sizeof T) of
                  None \<Rightarrow> Inl OutOfBounds
                | Some b2 \<Rightarrow>
                    split_loop T wav (Suc i) (ch1[i := from_bytes T b1])
                      (ch2[i := from_bytes T b2]))
             else split_loop T wav (Suc i) (ch1[i := from_bytes T b1]) ch2)
      else Inr (ch1, ch2))"
  by pat_completeness auto
termination
  by (relation "measure (\<lambda>(T, wav, i, ch1, ch2). unat (num_samples wav) - i)") auto

declare split_loop.simps [simp del]

definition WavData_ctor :: "ctype \<Rightarrow> WavFile \<Rightarrow> fault + diagnostic list \<times> WavData" where
  "WavData_ctor T wav =
     (let d = \<lparr>wd_sample_rate = sample_rate wav, wd_num_channels = num_channels wav,
               wd_bits_per_sample = bits_per_sample wav, wd_num_samples = num_samples wav,
               channel1 = [], channel2 = []\<rparr>
      in if unat (bits_per_sample wav) \<noteq> sizeof T * 8
         then Inr ([BitDepthMismatch (bits_per_sample wav) (sizeof T * 8)], d)
         else
           case split_loop T wav 0 (replicate (unat (num_samples wav)) 0)
                  (if num_channels wav = 2 then replicate (unat (num_samples wav)) 0 else []) of
             Inl e \<Rightarrow> Inl e
           | Inr (ch1, ch2) \<Rightarrow> Inr ([], d\<lparr>channel1 := ch1, channel2 := ch2\<rparr>))"

subsection \<open>toWavFile\<close>

function join_loop ::
  "ctype \<Rightarrow> WavData \<Rightarrow> 16 word \<Rightarrow> nat \<Rightarrow> byte list \<Rightarrow> fault + byte list" where
  "join_loop T d ba i raw =
     (if i < unat (wd_num_samples d) then
        (if \<not> i < length (channel1 d) then Inl OutOfBounds
         else
           case mem_write raw (unat (of_nat i * ucast ba :: 32 word))
                  (to_bytes T (channel1 d ! i)) of
             None \<Rightarrow> Inl OutOfBounds
           | Some raw1 \<Rightarrow>
               if wd_num_channels d = 2 then
                 (if \<not> i < length (channel2 d) then Inl OutOfBounds
                  else
                    case mem_write raw1 (unat (of_nat i * ucast ba :: 32 word) + sizeof T)
                           (to_bytes T (channel2 d ! i)) of
                      None \<Rightarrow> Inl OutOfBounds
                    | Some raw2 \<Rightarrow> join_loop T d ba (Suc i) raw2)
               else join_loop T d ba (Suc i) raw1)
      else Inr raw)"
  by pat_completeness auto
termination
  by (relation "measure (\<lambda>(T, d, ba, i, raw). unat (wd_num_samples d) - i)") auto

declare join_loop.simps [simp del]

definition toWavFile :: "ctype \<Rightarrow> WavData \<Rightarrow> fault + WavFile" where
  "toWavFile T d =
     (let ba = wd_num_channels d * (wd_bits_per_sample d div 8);
          ds = wd_num_samples d * ucast ba
      in case join_loop T d ba 0 (replicate (unat ds) 0) of
           Inl e \<Rightarrow> Inl e
         | Inr raw \<Rightarrow>
             Inr \<lparr>chunk_size = 36 + ds, num_channels = wd_num_channels d,
                  sample_rate = wd_sample_rate d, block_align = ba,
                  bits_per_sample = wd_bits_per_sample d, data_size = ds,
                  num_samples = wd_num_samples d, raw_data = raw\<rparr>)"

text \<open>The frames the constructor reads, when every read stays inside the buffer.\<close>

definition frame_offset :: "WavFile \<Rightarrow> nat \<Rightarrow> nat" where
  "frame_offset wav i = unat (of_nat i * ucast (block_align wav) :: 32 word)"

definition frame_end :: "ctype \<Rightarrow> WavFile \<Rightarrow> nat \<Rightarrow> nat" where
  "frame_end T wav i =
     frame_offset wav i + (if num_channels wav = 2 then 2 * sizeof T else sizeof T)"

definition sample1 :: "ctype \<Rightarrow> WavFile \<Rightarrow> nat \<Rightarrow> int" where
  "sample1 T wav i = from_bytes T (take (sizeof T) (drop (frame_offset wav i) (raw_data wav)))"

definition sample2 :: "ctype \<Rightarrow> WavFile \<Rightarrow> nat \<Rightarrow> int" where
  "sample2 T wav i =
     from_bytes T (take (sizeof T) (drop (frame_offset wav i + sizeof T) (raw_data wav)))"

text \<open>The bytes \<open>toWavFile\<close> writes for one frame.\<close>

definition frame_bytes :: "ctype \<Rightarrow> WavData \<Rightarrow> nat \<Rightarrow> byte list" where
  "frame_bytes T d i =
     to_bytes T (channel1 d ! i)
       @ (if wd_num_channels d = 2 then to_bytes T (channel2 d ! i) else [])"

section \<open>Double arithmetic\<close>

text \<open>
  A finite \<open>double\<close> is the real number it denotes. Every arithmetic operation returns
  the exact result rounded to the nearest number with a 53-bit significand, ties to the
  even significand (IEEE 754 binary64, the default rounding mode, no fused or extended
  precision evaluation). The exponent range is not modelled: the magnitudes that occur
  here are far from the largest and the smallest normal \<open>double\<close>. Infinities and NaN can
  arise only from a division by zero, which the functions below treat where it occurs.
\<close>

definition expo :: "real \<Rightarrow> int" where
  "expo x = (if 1 \<le> x then bitlen \<lfloor>x\<rfloor> - 1 else - bitlen (\<lceil>1 / x\<rceil> - 1))"

definition round_even :: "real \<Rightarrow> int" where
  "round_even y =
     (let f = \<lfloor>y\<rfloor>; r = y - of_int f
      in if r < 1 / 2 then f else if 1 / 2 < r then f + 1 else if even f then f else f + 1)"

definition rnd :: "real \<Rightarrow> real" where
  "rnd x =
     (if x = 0 then 0
      else let u = 2 powi (expo \<bar>x\<bar> - 52) in of_int (round_even (x / u)) * u)"

definition fadd :: "real \<Rightarrow> real \<Rightarrow> real" where "fadd x y = rnd (x + y)"
definition fsub :: "real \<Rightarrow> real \<Rightarrow> real" where "fsub x y = rnd (x - y)"
definition fmul :: "real \<Rightarrow> real \<Rightarrow> real" where "fmul x y = rnd (x * y)"
definition fdiv :: "real \<Rightarrow> real \<Rightarrow> real" where "fdiv x y = rnd (x / y)"

text \<open>\<open>static_cast<double>\<close> of an integer.\<close>

definition to_double :: "int \<Rightarrow> real" where
  "to_double v = rnd (of_int v)"

text \<open>\<open>std::round\<close>: to the nearest integer, halves away from zero.\<close>

definition c_round :: "real \<Rightarrow> int" where
  "c_round x = (if 0 \<le> x then \<lfloor>x + 1 / 2\<rfloor> else \<lceil>x - 1 / 2\<rceil>)"

text \<open>
  \<open>static_cast\<close> of a \<open>double\<close> to an integer type truncates towards zero; the behaviour
  is undefined when the truncated value is not a value of the type.
\<close>

definition c_trunc :: "real \<Rightarrow> int" where
  "c_trunc x = (if 0 \<le> x then \<lfloor>x\<rfloor> else \<lceil>x\<rceil>)"

definition to_uint32 :: "real \<Rightarrow> fault + 32 word" where
  "to_uint32 x =
     (if 0 \<le> c_trunc x \<and> c_trunc x < 2 ^ 32 then Inr (word_of_int (c_trunc x))
      else Inl CastOutOfRange)"

definition to_ctype :: "ctype \<Rightarrow> real \<Rightarrow> fault + int" where
  "to_ctype T x = (if in_range T (c_trunc x) then Inr (c_trunc x) else Inl CastOutOfRange)"

section \<open>resample\<close>

text \<open>
  The loop body for one channel: the interpolated sample at \<open>index0\<close>,
  \<open>index1\<close> and \<open>frac\<close>.
\<close>

definition interpolate :: "ctype \<Rightarrow> int list \<Rightarrow> nat \<Rightarrow> nat \<Rightarrow> real \<Rightarrow> fault + int" where
  "interpolate T chan index0 index1 frac' =
     (if \<not> index0 < length chan \<or> \<not> index1 < length chan then Inl OutOfBounds
      else
        let s0 = to_double (chan ! index0);
            s1 = to_double (chan ! index1);
            interp = fadd (fmul (fsub 1 frac') s0) (fmul frac' s1)
        in to_ctype T (of_int (c_round interp)))"

text \<open>The source position, the two source indices and the ratio, as the loop computes them.\<close>

definition resample_ratio :: "WavData \<Rightarrow> 32 word \<Rightarrow> real" where
  "resample_ratio input new_sample_rate =
     fdiv (to_double (uint new_sample_rate)) (to_double (uint (wd_sample_rate input)))"

definition src_index_of :: "real \<Rightarrow> nat \<Rightarrow> real" where
  "src_index_of ratio i = fdiv (to_double (int i)) ratio"

definition index1_of :: "WavData \<Rightarrow> 32 word \<Rightarrow> 32 word" where
  "index1_of input index0 = (if index0 + 1 < wd_num_samples input then index0 + 1 else index0)"

function resample_loop ::
  "ctype \<Rightarrow> WavData \<Rightarrow> real \<Rightarrow> nat \<Rightarrow> nat \<Rightarrow> int list \<Rightarrow> int list
     \<Rightarrow> fault + int list \<times> int list" where
  "resample_loop T input ratio newNumSamples i ch1 ch2 =
     (if i < newNumSamples then
        (if ratio = 0 then Inl CastOutOfRange
         else
           let src_index = src_index_of ratio i
           in case to_uint32 (of_int \<lfloor>src_index\<rfloor>) of
                Inl e \<Rightarrow> Inl e
              | Inr index0 \<Rightarrow>
                  let index1 = index1_of input index0;
                      frac' = fsub src_index (to_double (uint index0))
                  in case interpolate T (channel1 input) (unat index0) (unat index1) frac' of
                       Inl e \<Rightarrow> Inl e
                     | Inr v1 \<Rightarrow>
                         if wd_num_channels input = 2 then
                           (case interpolate T (channel2 input) (unat index0) (unat index1) frac' of
                              Inl e \<Rightarrow> Inl e
                            | Inr v2 \<Rightarrow>
                                resample_loop T input ratio newNumSamples (Suc i)
                                  (ch1[i := v1]) (ch2[i := v2]))
                         else resample_loop T input ratio newNumSamples (Suc i) (ch1[i := v1]) ch2)
      else Inr (ch1, ch2))"
  by pat_completeness auto
termination
  by (relation "measure (\<lambda>(T, input, ratio, n, i, ch1, ch2). n - i)") auto

declare resample_loop.simps [simp del]

text \<open>\<open>std::vector<T>::resize\<close>: keeps the front, fills with zeros.\<close>

definition resize_samples :: "nat \<Rightarrow> int list \<Rightarrow> int list" where
  "resize_samples n xs = take n xs @ replicate (n - length xs) 0"

text \<open>
  With a source rate of zero the ratio is infinite or NaN, and so is its product with
  the sample count: the conversion of that product to \<open>uint32_t\<close> is undefined.
\<close>

definition resample :: "ctype \<Rightarrow> WavData \<Rightarrow> 32 word \<Rightarrow> fault + WavData" where
  "resample T input new_sample_rate =
     (if wd_sample_rate input = 0 then Inl CastOutOfRange
      else
        let ratio = resample_ratio input new_sample_rate
        in case to_uint32 (fmul (to_double (uint (wd_num_samples input))) ratio) of
             Inl e \<Rightarrow> Inl e
           | Inr newNumSamples \<Rightarrow>
               (case resample_loop T input ratio (unat newNumSamples) 0
                       (resize_samples (unat newNumSamples) (channel1 input))
                       (if wd_num_channels input = 2
                        then resize_samples (unat newNumSamples) (channel2 input)
                        else channel2 input) of
                  Inl e \<Rightarrow> Inl e
                | Inr (ch1, ch2) \<Rightarrow>
                    Inr (input\<lparr>wd_sample_rate := new_sample_rate,
                              wd_num_samples := newNumSamples,
                              channel1 := ch1, channel2 := ch2\<rparr>)))"

section \<open>convertSample and reencode\<close>

definition convertSample :: "ctype \<Rightarrow> ctype \<Rightarrow> int \<Rightarrow> fault + int" where
  "convertSample From To sample =
     (let fSample = to_double sample;
          fromMin = (if is_signed From then to_double (numeric_min From) else 0);
          fromMax = to_double (numeric_max From);
          toMin = (if is_signed To then to_double (numeric_min To) else 0);
          toMax = to_double (numeric_max To);
          normalized = fdiv (fsub fSample fromMin) (fsub fromMax fromMin);
          result = fadd (fmul normalized (fsub toMax toMin)) toMin
      in to_ctype To (of_int (c_round result)))"

function reencode_loop ::
  "ctype \<Rightarrow> ctype \<Rightarrow> WavData \<Rightarrow> nat \<Rightarrow> int list \<Rightarrow> int list \<Rightarrow> fault + int list \<times> int list" where
  "reencode_loop From To input i ch1 ch2 =
     (if i < unat (wd_num_samples input) then
        (if \<not> i < length (channel1 input) then Inl OutOfBounds
         else
           case convertSample From To (channel1 input ! i) of
             Inl e \<Rightarrow> Inl e
           | Inr v1 \<Rightarrow>
               if wd_num_channels input = 2 then
                 (if \<not> i < length (channel2 input) then Inl OutOfBounds
                  else
                    case convertSample From To (channel2 input ! i) of
                      Inl e \<Rightarrow> Inl e
                    | Inr v2 \<Rightarrow> reencode_loop From To input (Suc i) (ch1[i := v1]) (ch2[i := v2]))
               else reencode_loop From To input (Suc i) (ch1[i := v1]) ch2)
      else Inr (ch1, ch2))"
  by pat_completeness auto
termination
  by (relation "measure (\<lambda>(From, To, input, i, ch1, ch2). unat (wd_num_samples input) - i)") auto

declare reencode_loop.simps [simp del]

definition reencode :: "ctype \<Rightarrow> ctype \<Rightarrow> WavData \<Rightarrow> fault + WavData" where
  "reencode From To input =
     (case reencode_loop From To input 0
             (replicate (unat (wd_num_samples input)) 0)
             (if wd_num_channels input = 2 then replicate (unat (wd_num_samples input)) 0 else []) of
        Inl e \<Rightarrow> Inl e
      | Inr (ch1, ch2) \<Rightarrow>
          Inr \<lparr>wd_sample_rate = wd_sample_rate input, wd_num_channels = wd_num_channels input,
               wd_bits_per_sample = of_nat (sizeof To * 8),
               wd_num_samples = wd_num_samples input, channel1 = ch1, channel2 = ch2\<rparr>)"

section \<open>Properties of the byte representations and of \<open>read\<close>\<close>

lemma length_nat_le [simp]: "length (nat_le k v) = k"
  by (induction k arbitrary: v) simp_all

lemma le_nat_nat_le: "le_nat (nat_le k v) = v mod 256 ^ k"
proof (induction k arbitrary: v)
  case 0
  show ?case by simp
next
  case (Suc k)
  have "unat (of_nat (v mod 256) :: byte) = v mod 256"
    by (simp add: unat_of_nat)
  then show ?case
    using Suc [of "v div 256"] by (simp add: mod_mult2_eq)
qed

lemma le_nat_bound: "le_nat bs < 256 ^ length bs"
proof (induction bs)
  case Nil
  show ?case by simp
next
  case (Cons b bs)
  have "unat b < 256" using unsigned_less [of b] by simp
  with Cons show ?case by simp
qed

lemma nat_le_le_nat: "nat_le (length bs) (le_nat bs) = bs"
proof (induction bs)
  case Nil
  show ?case by simp
next
  case (Cons b bs)
  have b: "unat b < 256" using unsigned_less [of b] by simp
  then have "(unat b + 256 * le_nat bs) mod 256 = unat b"
    and "(unat b + 256 * le_nat bs) div 256 = le_nat bs"
    by simp_all
  with Cons show ?case by simp
qed

lemma length_u16_bytes [simp]: "length (u16_bytes w) = 2"
  by (simp add: u16_bytes_def)

lemma length_u32_bytes [simp]: "length (u32_bytes w) = 4"
  by (simp add: u32_bytes_def)

lemma bytes_u16_u16_bytes [simp]: "bytes_u16 (u16_bytes w) = w"
proof -
  have "unat w < 256 ^ 2" using unsigned_less [of w] by simp
  then show ?thesis
    by (simp add: bytes_u16_def u16_bytes_def le_nat_nat_le)
qed

lemma bytes_u32_u32_bytes [simp]: "bytes_u32 (u32_bytes w) = w"
proof -
  have "unat w < 256 ^ 4" using unsigned_less [of w] by simp
  then show ?thesis
    by (simp add: bytes_u32_def u32_bytes_def le_nat_nat_le)
qed

lemma overwrite_full [simp]: "length got = length old \<Longrightarrow> overwrite got old = got"
  by (simp add: overwrite_def)

lemma stream_read_append:
  "length xs = n \<Longrightarrow> stream_read n (ifstream (xs @ rest)) = (xs, ifstream rest)"
  by (simp add: stream_read_def ifstream_def)

lemma seekg_cur_append:
  "length xs = n \<Longrightarrow> seekg_cur n (ifstream (xs @ rest)) = ifstream rest"
  by (simp add: seekg_cur_def ifstream_def)

lemma read_u16_append [simp]:
  "read_u16 old (ifstream (u16_bytes w @ rest)) = (w, ifstream rest)"
  by (simp add: read_u16_def stream_read_append)

lemma read_u32_append [simp]:
  "read_u32 old (ifstream (u32_bytes w @ rest)) = (w, ifstream rest)"
  by (simp add: read_u32_def stream_read_append)

lemma length_fmt_body [simp]: "length (fmt_body af nc sr br ba bps) = 16"
  by (simp add: fmt_body_def)

lemma read_fmt_append:
  assumes "unat sz = 16 + length extra"
  shows "read_fmt sz (ifstream (fmt_body af nc sr br ba bps @ extra @ rest)) wav =
    (wav\<lparr>num_channels := nc, sample_rate := sr, block_align := ba, bits_per_sample := bps\<rparr>,
     ifstream rest)"
proof -
  have skip: "seekg_cur 4 (ifstream (u32_bytes br @ xs)) = ifstream xs" for xs
    by (simp add: seekg_cur_append)
  have tail: "(if 16 < sz then seekg_cur (unat (sz - 16)) (ifstream (extra @ rest))
               else ifstream (extra @ rest)) = ifstream rest"
  proof (cases "16 < sz")
    case True
    then have "unat (sz - 16) = unat sz - 16"
      by (simp add: unat_sub word_le_nat_alt word_less_nat_alt)
    with True assms show ?thesis by (simp add: seekg_cur_append)
  next
    case False
    then have "unat sz \<le> 16" by (simp add: word_less_nat_alt)
    with False assms show ?thesis by simp
  qed
  show ?thesis
    by (simp add: read_fmt_def fmt_body_def skip tail)
qed

lemma read_data_append:
  "read_data sz (ifstream bs) wav =
     (wav\<lparr>data_size := sz,
          raw_data := overwrite (take (unat sz) bs) (resize (unat sz) (raw_data wav))\<rparr>,
      \<lparr>buf = drop (unat sz) bs, failbit = (length bs < unat sz)\<rparr>)"
  by (simp add: read_data_def stream_read_def ifstream_def)

lemma chunk_loop_done: "foundFmt \<Longrightarrow> foundData \<Longrightarrow> chunk_loop f wav foundFmt foundData = (wav, foundFmt, foundData)"
  by (simp add: chunk_loop.simps)

lemma chunk_loop_failed: "failbit f \<Longrightarrow> chunk_loop f wav foundFmt foundData = (wav, foundFmt, foundData)"
  by (simp add: chunk_loop.simps)

lemma chunk_loop_short:
  "length bs < 4 \<Longrightarrow> chunk_loop (ifstream bs) wav foundFmt foundData = (wav, foundFmt, foundData)"
  by (subst chunk_loop.simps) (simp add: stream_read_def ifstream_def)

lemma chunk_loop_tag:
  assumes "length tag = 4" and "\<not> (foundFmt \<and> foundData)"
  shows "chunk_loop (ifstream (tag @ u32_bytes sz @ rest)) wav foundFmt foundData =
    (if tag = fmt_tag then
       chunk_loop (snd (read_fmt sz (ifstream rest) wav)) (fst (read_fmt sz (ifstream rest) wav))
         True foundData
     else if tag = data_tag then
       chunk_loop (snd (read_data sz (ifstream rest) wav)) (fst (read_data sz (ifstream rest) wav))
         foundFmt True
     else chunk_loop (seekg_cur (unat sz) (ifstream rest)) wav foundFmt foundData)"
proof -
  have r: "stream_read 4 (ifstream (tag @ u32_bytes sz @ rest)) = (tag, ifstream (u32_bytes sz @ rest))"
    using assms(1) by (simp add: stream_read_append)
  have nf: "\<not> failbit (ifstream (tag @ u32_bytes sz @ rest))"
    by (simp add: ifstream_def)
  show ?thesis
    using assms nf
    by (subst chunk_loop.simps) (simp add: r Let_def)
qed

lemma chunk_loop_skip:
  assumes "length tag = 4" "tag \<noteq> fmt_tag" "tag \<noteq> data_tag" "\<not> (foundFmt \<and> foundData)"
    and "length body = unat sz"
  shows "chunk_loop (ifstream (tag @ u32_bytes sz @ body @ rest)) wav foundFmt foundData =
    chunk_loop (ifstream rest) wav foundFmt foundData"
  using assms by (simp add: chunk_loop_tag seekg_cur_append)

lemma chunk_loop_fmt:
  assumes "\<not> (foundFmt \<and> foundData)" and "unat sz = 16 + length extra"
  shows "chunk_loop (ifstream (fmt_tag @ u32_bytes sz @ fmt_body af nc sr br ba bps @ extra @ rest))
      wav foundFmt foundData =
    chunk_loop (ifstream rest)
      (wav\<lparr>num_channels := nc, sample_rate := sr, block_align := ba, bits_per_sample := bps\<rparr>)
      True foundData"
proof -
  have "length fmt_tag = 4" by (simp add: fmt_tag_def)
  then show ?thesis
    using assms by (simp add: chunk_loop_tag read_fmt_append)
qed

lemma chunk_loop_data:
  assumes "\<not> (foundFmt \<and> foundData)"
  shows "chunk_loop (ifstream (data_tag @ u32_bytes sz @ rest)) wav foundFmt foundData =
    chunk_loop \<lparr>buf = drop (unat sz) rest, failbit = (length rest < unat sz)\<rparr>
      (wav\<lparr>data_size := sz,
           raw_data := overwrite (take (unat sz) rest) (resize (unat sz) (raw_data wav))\<rparr>)
      foundFmt True"
proof -
  have "length data_tag = 4" "data_tag \<noteq> fmt_tag" by (simp_all add: data_tag_def fmt_tag_def)
  then show ?thesis
    using assms by (simp add: chunk_loop_tag read_data_append)
qed

lemma unat_of_nat_length32:
  "length (body :: byte list) < 2 ^ 32 \<Longrightarrow> unat (of_nat (length body) :: 32 word) = length body"
  by (simp add: unat_of_nat take_bit_nat_eq_self)

lemma chunk_loop_chunks:
  assumes "list_all skippable cs" and "\<not> (foundFmt \<and> foundData)"
  shows "chunk_loop (ifstream (chunks cs @ rest)) wav foundFmt foundData =
    chunk_loop (ifstream rest) wav foundFmt foundData"
  using assms(1)
proof (induction cs)
  case Nil
  show ?case by (simp add: chunks_def)
next
  case (Cons c cs)
  then have c: "length (fst c) = 4" "fst c \<noteq> fmt_tag" "fst c \<noteq> data_tag"
    "length (snd c) = unat (of_nat (length (snd c)) :: 32 word)"
    by (simp_all add: skippable_def unat_of_nat_length32)
  have "chunks (c # cs) @ rest =
      fst c @ u32_bytes (of_nat (length (snd c))) @ snd c @ chunks cs @ rest"
    by (simp add: chunks_def chunk_def)
  then show ?case
    using chunk_loop_skip [OF c(1-3) assms(2) c(4)] Cons by simp
qed

lemma read_riff_header:
  "read (Some (riff_header cs @ rest)) wav =
     (case chunk_loop (ifstream rest) (wav\<lparr>chunk_size := cs\<rparr>) False False of
        (wav', foundFmt, foundData) \<Rightarrow>
          if \<not> foundFmt then Inl MissingFmtChunk
          else if \<not> foundData then Inl MissingDataChunk
          else if block_align wav' = 0 then Inl DivisionByZero
          else Inr (wav'\<lparr>num_samples := data_size wav' div ucast (block_align wav')\<rparr>))"
proof -
  have 1: "stream_read 4 (ifstream (RIFF @ u32_bytes cs @ WAVE @ rest)) =
      (RIFF, ifstream (u32_bytes cs @ WAVE @ rest))"
    by (rule stream_read_append) (simp add: RIFF_def)
  have 2: "stream_read 4 (ifstream (WAVE @ rest)) = (WAVE, ifstream rest)"
    by (rule stream_read_append) (simp add: WAVE_def)
  have 3: "overwrite RIFF [0, 0, 0, 0] = RIFF" "overwrite WAVE [0, 0, 0, 0] = WAVE"
    by (simp_all add: RIFF_def WAVE_def)
  show ?thesis
    by (simp add: read_def riff_header_def 1 2 3)
qed

lemma chunk_loop_fmt_chunk:
  assumes "\<not> (foundFmt \<and> foundData)" and "length extra + 16 < 2 ^ 32"
  shows "chunk_loop (ifstream (chunk fmt_tag (fmt_body af nc sr br ba bps @ extra) @ rest))
      wav foundFmt foundData =
    chunk_loop (ifstream rest)
      (wav\<lparr>num_channels := nc, sample_rate := sr, block_align := ba, bits_per_sample := bps\<rparr>)
      True foundData"
proof -
  have "unat (of_nat (length (fmt_body af nc sr br ba bps @ extra)) :: 32 word) = 16 + length extra"
    using assms(2) unat_of_nat_length32 [of "fmt_body af nc sr br ba bps @ extra"] by simp
  then show ?thesis
    using chunk_loop_fmt [OF assms(1), of _ extra af nc sr br ba bps rest wav]
    by (simp add: chunk_def)
qed

lemma WavFile_all_fields:
  "(wav :: WavFile)\<lparr>chunk_size := a, num_channels := b, sample_rate := c, block_align := d,
      bits_per_sample := e, data_size := f, num_samples := g, raw_data := h\<rparr> =
   \<lparr>chunk_size = a, num_channels = b, sample_rate = c, block_align = d,
    bits_per_sample = e, data_size = f, num_samples = g, raw_data = h\<rparr>"
  by (cases wav) simp

lemma read_fmt_then_data:
  assumes "list_all skippable us" and "list_all skippable vs" and "length extra + 16 < 2 ^ 32"
  shows "read (Some (riff_header cs @ chunks us
            @ chunk fmt_tag (fmt_body af nc sr br ba bps @ extra)
            @ chunks vs @ data_tag @ u32_bytes n @ rest)) wav =
    (if ba = 0 then Inl DivisionByZero
     else Inr \<lparr>chunk_size = cs, num_channels = nc, sample_rate = sr, block_align = ba,
       bits_per_sample = bps, data_size = n, num_samples = n div ucast ba,
       raw_data = overwrite (take (unat n) rest) (resize (unat n) (raw_data wav))\<rparr>)"
proof -
  let ?w1 = "wav\<lparr>chunk_size := cs\<rparr>"
  let ?w2 = "?w1\<lparr>num_channels := nc, sample_rate := sr, block_align := ba,
    bits_per_sample := bps\<rparr>"
  let ?w3 = "?w2\<lparr>data_size := n,
    raw_data := overwrite (take (unat n) rest) (resize (unat n) (raw_data ?w2))\<rparr>"
  have "chunk_loop (ifstream (chunks us
            @ chunk fmt_tag (fmt_body af nc sr br ba bps @ extra)
            @ chunks vs @ data_tag @ u32_bytes n @ rest)) ?w1 False False =
      chunk_loop (ifstream (chunk fmt_tag (fmt_body af nc sr br ba bps @ extra)
            @ chunks vs @ data_tag @ u32_bytes n @ rest)) ?w1 False False"
    using assms(1) by (simp add: chunk_loop_chunks)
  also have "\<dots> = chunk_loop (ifstream (chunks vs @ data_tag @ u32_bytes n @ rest)) ?w2 True False"
    using assms(3) by (simp add: chunk_loop_fmt_chunk)
  also have "\<dots> = chunk_loop (ifstream (data_tag @ u32_bytes n @ rest)) ?w2 True False"
    using assms(2) by (simp add: chunk_loop_chunks)
  also have "\<dots> = chunk_loop \<lparr>buf = drop (unat n) rest, failbit = (length rest < unat n)\<rparr>
      ?w3 True True"
    by (simp add: chunk_loop_data)
  also have "\<dots> = (?w3, True, True)"
    by (rule chunk_loop_done) simp_all
  finally show ?thesis
    by (cases wav) (simp add: read_riff_header)
qed

lemma read_data_then_fmt:
  assumes "list_all skippable us" and "list_all skippable vs" and "length extra + 16 < 2 ^ 32"
    and "length body < 2 ^ 32"
  shows "read (Some (riff_header cs @ chunks us @ chunk data_tag body @ chunks vs
            @ chunk fmt_tag (fmt_body af nc sr br ba bps @ extra) @ rest)) wav =
    (if ba = 0 then Inl DivisionByZero
     else Inr \<lparr>chunk_size = cs, num_channels = nc, sample_rate = sr, block_align = ba,
       bits_per_sample = bps, data_size = of_nat (length body),
       num_samples = of_nat (length body) div ucast ba, raw_data = body\<rparr>)"
proof -
  let ?n = "of_nat (length body) :: 32 word"
  let ?w1 = "wav\<lparr>chunk_size := cs\<rparr>"
  let ?w2 = "?w1\<lparr>data_size := ?n, raw_data := body\<rparr>"
  let ?w3 = "?w2\<lparr>num_channels := nc, sample_rate := sr, block_align := ba,
    bits_per_sample := bps\<rparr>"
  let ?fmt = "chunk fmt_tag (fmt_body af nc sr br ba bps @ extra)"
  have n: "unat ?n = length body"
    using assms(4) by (rule unat_of_nat_length32)
  have "chunk_loop (ifstream (chunks us @ chunk data_tag body @ chunks vs @ ?fmt @ rest))
        ?w1 False False =
      chunk_loop (ifstream (data_tag @ u32_bytes ?n @ body @ chunks vs @ ?fmt @ rest))
        ?w1 False False"
    using assms(1) by (simp add: chunk_loop_chunks chunk_def)
  also have "\<dots> = chunk_loop
        \<lparr>buf = drop (unat ?n) (body @ chunks vs @ ?fmt @ rest),
         failbit = (length (body @ chunks vs @ ?fmt @ rest) < unat ?n)\<rparr>
        (?w1\<lparr>data_size := ?n,
          raw_data := overwrite (take (unat ?n) (body @ chunks vs @ ?fmt @ rest))
            (resize (unat ?n) (raw_data ?w1))\<rparr>) False True"
    by (rule chunk_loop_data) simp
  also have "\<dots> = chunk_loop (ifstream (chunks vs @ ?fmt @ rest)) ?w2 False True"
    by (simp add: n overwrite_def resize_def ifstream_def)
  also have "\<dots> = chunk_loop (ifstream (?fmt @ rest)) ?w2 False True"
    using assms(2) by (simp add: chunk_loop_chunks)
  also have "\<dots> = chunk_loop (ifstream rest) ?w3 True True"
    using assms(3) by (simp add: chunk_loop_fmt_chunk)
  also have "\<dots> = (?w3, True, True)"
    by (rule chunk_loop_done) simp_all
  finally show ?thesis
    by (cases wav) (simp add: read_riff_header)
qed

lemma u16_bytes_bytes_u16: "length bs = 2 \<Longrightarrow> u16_bytes (bytes_u16 bs) = bs"
proof -
  assume l: "length bs = 2"
  have "le_nat bs < 2 ^ 16" using le_nat_bound [of bs] l by simp
  then have "unat (of_nat (le_nat bs) :: 16 word) = le_nat bs"
    by (simp add: unat_of_nat take_bit_nat_eq_self)
  then show ?thesis
    using nat_le_le_nat [of bs] l by (simp add: u16_bytes_def bytes_u16_def)
qed

lemma u32_bytes_bytes_u32: "length bs = 4 \<Longrightarrow> u32_bytes (bytes_u32 bs) = bs"
proof -
  assume l: "length bs = 4"
  have "le_nat bs < 2 ^ 32" using le_nat_bound [of bs] l by simp
  then have "unat (of_nat (le_nat bs) :: 32 word) = le_nat bs"
    by (simp add: unat_of_nat take_bit_nat_eq_self)
  then show ?thesis
    using nat_le_le_nat [of bs] l by (simp add: u32_bytes_def bytes_u32_def)
qed

lemma fmt_body_decompose:
  assumes "16 \<le> length bs"
  shows "\<exists>af nc sr br ba bps. bs = fmt_body af nc sr br ba bps @ drop 16 bs"
proof -
  let ?p = "\<lambda>i n. take n (drop i bs)"
  have "take 16 bs = ?p 0 2 @ ?p 2 2 @ ?p 4 4 @ ?p 8 4 @ ?p 12 2 @ ?p 14 2"
    using take_add [of 2 14 bs] take_add [of 2 12 "drop 2 bs"] take_add [of 4 8 "drop 4 bs"]
      take_add [of 4 4 "drop 8 bs"] take_add [of 2 2 "drop 12 bs"]
    by simp
  moreover have "length (?p 0 2) = 2" "length (?p 2 2) = 2" "length (?p 4 4) = 4"
    "length (?p 8 4) = 4" "length (?p 12 2) = 2" "length (?p 14 2) = 2"
    using assms by simp_all
  ultimately have "take 16 bs = fmt_body (bytes_u16 (?p 0 2)) (bytes_u16 (?p 2 2))
      (bytes_u32 (?p 4 4)) (bytes_u32 (?p 8 4)) (bytes_u16 (?p 12 2)) (bytes_u16 (?p 14 2))"
    by (simp only: fmt_body_def u16_bytes_bytes_u16 u32_bytes_bytes_u32)
  then have "bs = fmt_body (bytes_u16 (?p 0 2)) (bytes_u16 (?p 2 2))
      (bytes_u32 (?p 4 4)) (bytes_u32 (?p 8 4)) (bytes_u16 (?p 12 2)) (bytes_u16 (?p 14 2))
      @ drop 16 bs"
    using append_take_drop_id [of 16 bs] by simp
  then show ?thesis by blast
qed

lemma chunk_loop_non_data_chunk:
  assumes "non_data_chunk c"
  shows "\<exists>wav'. chunk_loop (ifstream (chunk (fst c) (snd c) @ rest)) wav foundFmt False =
    chunk_loop (ifstream rest) wav' (foundFmt \<or> fst c = fmt_tag) False"
proof (cases "fst c = fmt_tag")
  case True
  from assms True have len: "16 \<le> length (snd c)" "length (snd c) < 2 ^ 32"
    by (simp_all add: non_data_chunk_def)
  then obtain af nc sr br ba bps
    where b: "snd c = fmt_body af nc sr br ba bps @ drop 16 (snd c)"
    using fmt_body_decompose by blast
  have "length (drop 16 (snd c)) + 16 < 2 ^ 32" using len by simp
  then have "chunk_loop (ifstream (chunk fmt_tag (fmt_body af nc sr br ba bps @ drop 16 (snd c)) @ rest))
      wav foundFmt False =
    chunk_loop (ifstream rest)
      (wav\<lparr>num_channels := nc, sample_rate := sr, block_align := ba, bits_per_sample := bps\<rparr>)
      True False"
    by (intro chunk_loop_fmt_chunk) simp_all
  with True b show ?thesis by auto
next
  case False
  with assms have "skippable c" by (simp add: non_data_chunk_def skippable_def)
  then have "chunk_loop (ifstream (chunks [c] @ rest)) wav foundFmt False =
    chunk_loop (ifstream rest) wav foundFmt False"
    by (intro chunk_loop_chunks) simp_all
  with False show ?thesis by (auto simp: chunks_def)
qed

lemma chunk_loop_no_data:
  assumes "list_all non_data_chunk cs" and "length tail < 4"
  shows "\<exists>wav'. chunk_loop (ifstream (chunks cs @ tail)) wav foundFmt False =
    (wav', foundFmt \<or> (\<exists>c\<in>set cs. fst c = fmt_tag), False)"
  using assms(1)
proof (induction cs arbitrary: wav foundFmt)
  case Nil
  show ?case using assms(2) by (simp add: chunks_def chunk_loop_short)
next
  case (Cons c cs)
  then have c: "non_data_chunk c" and cs: "list_all non_data_chunk cs" by simp_all
  obtain w1 where 1: "chunk_loop (ifstream (chunk (fst c) (snd c) @ chunks cs @ tail)) wav foundFmt False =
    chunk_loop (ifstream (chunks cs @ tail)) w1 (foundFmt \<or> fst c = fmt_tag) False"
    using chunk_loop_non_data_chunk [OF c] by blast
  obtain w2 where 2: "chunk_loop (ifstream (chunks cs @ tail)) w1 (foundFmt \<or> fst c = fmt_tag) False =
    (w2, (foundFmt \<or> fst c = fmt_tag) \<or> (\<exists>c\<in>set cs. fst c = fmt_tag), False)"
    using Cons.IH [OF cs] by blast
  have "chunks (c # cs) @ tail = chunk (fst c) (snd c) @ chunks cs @ tail"
    by (simp add: chunks_def)
  with 1 2 show ?case by auto
qed

lemma read_no_data:
  assumes "list_all non_data_chunk ks" and "length tail < 4"
  shows "read (Some (riff_header cs @ chunks ks @ tail)) wav =
    Inl (if \<exists>c\<in>set ks. fst c = fmt_tag then MissingDataChunk else MissingFmtChunk)"
proof -
  obtain w where "chunk_loop (ifstream (chunks ks @ tail)) (wav\<lparr>chunk_size := cs\<rparr>) False False =
    (w, False \<or> (\<exists>c\<in>set ks. fst c = fmt_tag), False)"
    using chunk_loop_no_data [OF assms] by blast
  then show ?thesis by (simp add: read_riff_header)
qed

lemma nat_le_2: "nat_le 2 v = [of_nat (v mod 256), of_nat (v div 256 mod 256)]"
proof -
  have "nat_le (Suc (Suc 0)) v = [of_nat (v mod 256), of_nat (v div 256 mod 256)]"
    by simp
  then show ?thesis by (simp only: numeral_2_eq_2)
qed

lemma nat_le_4:
  "nat_le 4 v = [of_nat (v mod 256), of_nat (v div 256 mod 256),
     of_nat (v div 256 div 256 mod 256), of_nat (v div 256 div 256 div 256 mod 256)]"
proof -
  have "nat_le (Suc (Suc (Suc (Suc 0)))) v = [of_nat (v mod 256), of_nat (v div 256 mod 256),
     of_nat (v div 256 div 256 mod 256), of_nat (v div 256 div 256 div 256 mod 256)]"
    by simp
  moreover have "(4 :: nat) = Suc (Suc (Suc (Suc 0)))" by simp
  ultimately show ?thesis by (simp only:)
qed

lemmas le_bytes_eval = u16_bytes_def u32_bytes_def nat_le_2 nat_le_4

section \<open>Properties of the constructor, of \<open>toWavFile\<close> and of \<open>save\<close>\<close>

lemma sizeof_pos [simp]: "0 < sizeof T"
  by (cases T) simp_all

lemma length_to_bytes [simp]: "length (to_bytes T v) = sizeof T"
  by (simp add: to_bytes_def)

lemma to_bytes_from_bytes:
  assumes "length bs = sizeof T"
  shows "to_bytes T (from_bytes T bs) = bs"
proof -
  let ?m = "2 ^ (8 * sizeof T) :: int"
  have "le_nat bs < 256 ^ sizeof T"
    using le_nat_bound [of bs] assms by simp
  also have "(256 :: nat) ^ sizeof T = 2 ^ (8 * sizeof T)"
    by (simp add: power_mult)
  finally have b: "int (le_nat bs) < ?m"
    by (metis of_nat_less_iff of_nat_numeral of_nat_power)
  have "from_bytes T bs mod ?m = int (le_nat bs) mod ?m"
    by (simp add: from_bytes_def Let_def)
  also have "\<dots> = int (le_nat bs)"
    using b by simp
  finally show ?thesis
    using nat_le_le_nat [of bs] assms by (simp add: to_bytes_def)
qed

lemma mem_read_Some:
  "off + n \<le> length mem \<Longrightarrow> mem_read mem off n = Some (take n (drop off mem))"
  by (simp add: mem_read_def)

lemma mem_read_None: "length mem < off + n \<Longrightarrow> mem_read mem off n = None"
  by (simp add: mem_read_def)

lemma split_loop_in_bounds:
  assumes "\<forall>j. i \<le> j \<and> j < unat (num_samples wav) \<longrightarrow> frame_end T wav j \<le> length (raw_data wav)"
    and "i \<le> unat (num_samples wav)"
    and "length ch1 = unat (num_samples wav)"
    and "num_channels wav = 2 \<longrightarrow> length ch2 = unat (num_samples wav)"
  shows "split_loop T wav i ch1 ch2 =
    Inr (take i ch1 @ map (sample1 T wav) [i..<unat (num_samples wav)],
         if num_channels wav = 2
         then take i ch2 @ map (sample2 T wav) [i..<unat (num_samples wav)] else ch2)"
  using assms
proof (induction T wav i ch1 ch2 rule: split_loop.induct)
  case (1 T wav i ch1 ch2)
  let ?n = "unat (num_samples wav)"
  show ?case
  proof (cases "i < ?n")
    case False
    with "1.prems" show ?thesis
      by (subst split_loop.simps) simp
  next
    case True
    let ?off = "unat (of_nat i * ucast (block_align wav) :: 32 word)"
    have off: "?off = frame_offset wav i" by (simp add: frame_offset_def)
    have fe: "frame_end T wav i \<le> length (raw_data wav)"
      using "1.prems"(1) True by simp
    have r1: "mem_read (raw_data wav) ?off (sizeof T) =
        Some (take (sizeof T) (drop ?off (raw_data wav)))"
      using fe by (intro mem_read_Some) (simp add: frame_end_def off split: if_splits)
    have rest: "\<forall>j. Suc i \<le> j \<and> j < ?n \<longrightarrow> frame_end T wav j \<le> length (raw_data wav)"
      using "1.prems"(1) by simp
    have upt: "[i..<?n] = i # [Suc i..<?n]"
      using True by (simp add: upt_conv_Cons)
    show ?thesis
    proof (cases "num_channels wav = 2")
      case stereo: True
      have r2: "mem_read (raw_data wav) (?off + sizeof T) (sizeof T) =
          Some (take (sizeof T) (drop (?off + sizeof T) (raw_data wav)))"
        using fe stereo by (intro mem_read_Some) (simp add: frame_end_def off)
      have l2: "length ch2 = ?n" using "1.prems"(4) stereo by simp
      have "split_loop T wav (Suc i) (ch1[i := sample1 T wav i]) (ch2[i := sample2 T wav i]) =
        Inr (take (Suc i) (ch1[i := sample1 T wav i]) @ map (sample1 T wav) [Suc i..<?n],
             take (Suc i) (ch2[i := sample2 T wav i]) @ map (sample2 T wav) [Suc i..<?n])"
        using "1.IH"(1) [OF True r1 stereo r2] rest True "1.prems"(3) l2 stereo
        by (simp add: sample1_def sample2_def off)
      moreover have "take (Suc i) (ch1[i := x]) = take i ch1 @ [x]" for x
        using True "1.prems"(3) by (simp add: take_Suc_conv_app_nth)
      moreover have "take (Suc i) (ch2[i := x]) = take i ch2 @ [x]" for x
        using True l2 by (simp add: take_Suc_conv_app_nth)
      ultimately show ?thesis
        using True stereo r1 r2 upt
        by (subst split_loop.simps) (simp add: sample1_def sample2_def off)
    next
      case mono: False
      have "split_loop T wav (Suc i) (ch1[i := sample1 T wav i]) ch2 =
        Inr (take (Suc i) (ch1[i := sample1 T wav i]) @ map (sample1 T wav) [Suc i..<?n], ch2)"
        using "1.IH"(2) [OF True r1 mono] rest True "1.prems"(3) mono
        by (simp add: sample1_def off)
      moreover have "take (Suc i) (ch1[i := x]) = take i ch1 @ [x]" for x
        using True "1.prems"(3) by (simp add: take_Suc_conv_app_nth)
      ultimately show ?thesis
        using True mono r1 upt
        by (subst split_loop.simps) (simp add: sample1_def off)
    qed
  qed
qed

lemma split_loop_out_of_bounds:
  assumes "i \<le> j" and "j < unat (num_samples wav)"
    and "length (raw_data wav) < frame_end T wav j"
  shows "split_loop T wav i ch1 ch2 = Inl OutOfBounds"
  using assms
proof (induction T wav i ch1 ch2 rule: split_loop.induct)
  case (1 T wav i ch1 ch2)
  let ?n = "unat (num_samples wav)"
  let ?off = "unat (of_nat i * ucast (block_align wav) :: 32 word)"
  have off: "?off = frame_offset wav i" by (simp add: frame_offset_def)
  have lt: "i < ?n" using "1.prems" by simp
  show ?case
  proof (cases "mem_read (raw_data wav) ?off (sizeof T)")
    case None
    with lt show ?thesis by (subst split_loop.simps) simp
  next
    case (Some b1)
    note r1 = this
    show ?thesis
    proof (cases "num_channels wav = 2")
      case stereo: True
      show ?thesis
      proof (cases "mem_read (raw_data wav) (?off + sizeof T) (sizeof T)")
        case None
        with lt r1 stereo show ?thesis by (subst split_loop.simps) simp
      next
        case (Some b2)
        then have "frame_end T wav i \<le> length (raw_data wav)"
          using stereo by (simp add: mem_read_def frame_end_def off split: if_splits)
        with "1.prems" have "Suc i \<le> j" by (cases "i = j") auto
        then have "split_loop T wav (Suc i) (ch1[i := from_bytes T b1])
            (ch2[i := from_bytes T b2]) = Inl OutOfBounds"
          using "1.IH"(1) [OF lt r1 stereo Some] "1.prems" by simp
        with lt r1 stereo Some show ?thesis by (subst split_loop.simps) simp
      qed
    next
      case mono: False
      from r1 have "frame_end T wav i \<le> length (raw_data wav)"
        using mono by (simp add: mem_read_def frame_end_def off split: if_splits)
      with "1.prems" have "Suc i \<le> j" by (cases "i = j") auto
      then have "split_loop T wav (Suc i) (ch1[i := from_bytes T b1]) ch2 = Inl OutOfBounds"
        using "1.IH"(2) [OF lt r1 mono] "1.prems" by simp
      with lt r1 mono show ?thesis by (subst split_loop.simps) simp
    qed
  qed
qed

lemma mem_write_Some:
  "off + length bs \<le> length mem \<Longrightarrow>
   mem_write mem off bs = Some (take off mem @ bs @ drop (off + length bs) mem)"
  by (simp add: mem_write_def)

lemma concat_frames_take:
  "concat (map (\<lambda>j. take k (drop (j * k) xs)) [0..<n]) = take (n * k) xs"
proof (induction n)
  case 0
  show ?case by simp
next
  case (Suc n)
  have "take (n * k) xs @ take k (drop (n * k) xs) = take (n * k + k) xs"
    by (simp add: take_add)
  with Suc show ?case by (simp add: add.commute)
qed

lemma unat_ucast_16_32 [simp]: "unat (ucast (w :: 16 word) :: 32 word) = unat w"
proof -
  have "unat w < 2 ^ 16" using unsigned_less [of w] by simp
  then have "unat w < 2 ^ 32" by simp
  then show ?thesis
    by (simp add: unsigned_ucast_eq take_bit_nat_eq_self)
qed

lemma word32_offset:
  assumes "i * unat (ba :: 16 word) < 2 ^ 32"
  shows "unat (of_nat i * ucast ba :: 32 word) = i * unat ba"
proof -
  have "unat (of_nat i * ucast ba :: 32 word) = (i mod 2 ^ 32 * unat ba) mod 2 ^ 32"
    by (simp add: unat_word_ariths unat_of_nat)
  also have "\<dots> = (i * unat ba) mod 2 ^ 32"
    by (simp add: mod_mult_left_eq)
  finally show ?thesis using assms by simp
qed

lemma length_frame_bytes:
  "length (frame_bytes T d i) = (if wd_num_channels d = 2 then 2 * sizeof T else sizeof T)"
  by (simp add: frame_bytes_def)

lemma join_loop_canonical:
  assumes "unat ba = (if wd_num_channels d = 2 then 2 * sizeof T else sizeof T)"
    and "unat (wd_num_samples d) * unat ba < 2 ^ 32"
    and "length raw = unat (wd_num_samples d) * unat ba"
    and "unat (wd_num_samples d) \<le> length (channel1 d)"
    and "wd_num_channels d = 2 \<longrightarrow> unat (wd_num_samples d) \<le> length (channel2 d)"
    and "i \<le> unat (wd_num_samples d)"
  shows "join_loop T d ba i raw =
    Inr (take (i * unat ba) raw @ concat (map (frame_bytes T d) [i..<unat (wd_num_samples d)]))"
  using assms
proof (induction T d ba i raw rule: join_loop.induct)
  case (1 T d ba i raw)
  let ?n = "unat (wd_num_samples d)"
  let ?k = "unat ba"
  show ?case
  proof (cases "i < ?n")
    case False
    with "1.prems" show ?thesis
      by (subst join_loop.simps) simp
  next
    case True
    have "i * ?k \<le> ?n * ?k" using True by simp
    then have "i * ?k < 2 ^ 32" using "1.prems"(2) by linarith
    then have off: "unat (of_nat i * ucast ba :: 32 word) = i * ?k"
      by (rule word32_offset)
    have room: "i * ?k + ?k \<le> length raw"
    proof -
      have "Suc i * ?k \<le> ?n * ?k" using True by (intro mult_le_mono1) simp
      then show ?thesis using "1.prems"(3) by (simp add: add.commute)
    qed
    have c1: "i < length (channel1 d)" using True "1.prems"(4) by simp
    have upt: "[i..<?n] = i # [Suc i..<?n]"
      using True by (simp add: upt_conv_Cons)
    let ?b1 = "to_bytes T (channel1 d ! i)"
    let ?raw1 = "take (i * ?k) raw @ ?b1 @ drop (i * ?k + sizeof T) raw"
    have w1: "mem_write raw (i * ?k) ?b1 = Some ?raw1"
      using room "1.prems"(1) by (subst mem_write_Some) (simp_all split: if_splits)
    have l1: "length ?raw1 = length raw"
      using room "1.prems"(1) by (simp split: if_splits)
    show ?thesis
    proof (cases "wd_num_channels d = 2")
      case mono: False
      then have k: "?k = sizeof T" using "1.prems"(1) by simp
      have "join_loop T d ba (Suc i) ?raw1 =
        Inr (take (Suc i * ?k) ?raw1 @ concat (map (frame_bytes T d) [Suc i..<?n]))"
        using "1.IH"(2) [OF True _ _ mono, of ?raw1] c1 w1 off True "1.prems" l1
        by simp
      moreover have "take (Suc i * ?k) ?raw1 = take (i * ?k) raw @ frame_bytes T d i"
        using room mono k by (simp add: frame_bytes_def)
      ultimately show ?thesis
        using True c1 w1 off mono upt by (subst join_loop.simps) simp
    next
      case stereo: True
      then have k: "?k = 2 * sizeof T" using "1.prems"(1) by simp
      have c2: "i < length (channel2 d)" using True "1.prems"(5) stereo by simp
      let ?b2 = "to_bytes T (channel2 d ! i)"
      let ?raw2 = "take (i * ?k + sizeof T) ?raw1 @ ?b2 @ drop (i * ?k + sizeof T + sizeof T) ?raw1"
      have w2: "mem_write ?raw1 (i * ?k + sizeof T) ?b2 = Some ?raw2"
        using room k l1 by (subst mem_write_Some) simp_all
      have l2: "length ?raw2 = length raw"
        using room k l1 by simp
      have "join_loop T d ba (Suc i) ?raw2 =
        Inr (take (Suc i * ?k) ?raw2 @ concat (map (frame_bytes T d) [Suc i..<?n]))"
        using "1.IH"(1) [OF True _ _ stereo _ _, of ?raw1 ?raw2] c1 c2 w1 w2 off True "1.prems" l2
        by simp
      moreover have "take (Suc i * ?k) ?raw2 = take (i * ?k) raw @ frame_bytes T d i"
        using room stereo k by (simp add: frame_bytes_def)
      ultimately show ?thesis
        using True c1 c2 w1 w2 off stereo upt by (subst join_loop.simps) simp
    qed
  qed
qed

lemma WavData_ctor_in_bounds:
  assumes "unat (bits_per_sample c) = sizeof T * 8"
    and "\<forall>j < unat (num_samples c). frame_end T c j \<le> length (raw_data c)"
  shows "WavData_ctor T c =
    Inr ([], \<lparr>wd_sample_rate = sample_rate c, wd_num_channels = num_channels c,
         wd_bits_per_sample = bits_per_sample c, wd_num_samples = num_samples c,
         channel1 = map (sample1 T c) [0..<unat (num_samples c)],
         channel2 = (if num_channels c = 2
                     then map (sample2 T c) [0..<unat (num_samples c)] else [])\<rparr>)"
proof -
  have "split_loop T c 0 (replicate (unat (num_samples c)) 0)
      (if num_channels c = 2 then replicate (unat (num_samples c)) 0 else []) =
    Inr (take 0 (replicate (unat (num_samples c)) 0) @ map (sample1 T c) [0..<unat (num_samples c)],
         if num_channels c = 2
         then take 0 (if num_channels c = 2 then replicate (unat (num_samples c)) 0 else [])
              @ map (sample2 T c) [0..<unat (num_samples c)]
         else (if num_channels c = 2 then replicate (unat (num_samples c)) 0 else []))"
    using assms(2) by (intro split_loop_in_bounds) simp_all
  then show ?thesis
    using assms(1) by (simp add: WavData_ctor_def)
qed

lemma WavData_ctor_out_of_bounds:
  assumes "unat (bits_per_sample c) = sizeof T * 8"
    and "j < unat (num_samples c)" and "length (raw_data c) < frame_end T c j"
  shows "WavData_ctor T c = Inl OutOfBounds"
  using assms split_loop_out_of_bounds [of 0 j c T]
  by (simp add: WavData_ctor_def)

lemma canonical_round_trip:
  assumes nc: "num_channels c = 1 \<or> num_channels c = 2"
    and bits: "unat (bits_per_sample c) = sizeof T * 8"
    and ba: "unat (block_align c) = unat (num_channels c) * sizeof T"
    and ds: "unat (data_size c) = unat (num_samples c) * unat (block_align c)"
    and len: "length (raw_data c) = unat (data_size c)"
  shows "\<exists>d. WavData_ctor T c = Inr ([], d) \<and>
    toWavFile T d = Inr \<lparr>chunk_size = 36 + data_size c, num_channels = num_channels c,
      sample_rate = sample_rate c, block_align = block_align c,
      bits_per_sample = bits_per_sample c, data_size = data_size c,
      num_samples = num_samples c, raw_data = raw_data c\<rparr>"
proof -
  let ?n = "unat (num_samples c)"
  let ?k = "unat (block_align c)"
  let ?sz = "sizeof T"
  let ?d = "\<lparr>wd_sample_rate = sample_rate c, wd_num_channels = num_channels c,
         wd_bits_per_sample = bits_per_sample c, wd_num_samples = num_samples c,
         channel1 = map (sample1 T c) [0..<?n],
         channel2 = (if num_channels c = 2 then map (sample2 T c) [0..<?n] else [])\<rparr>"
  have k: "?k = (if num_channels c = 2 then 2 * ?sz else ?sz)"
    using nc ba by auto
  have total: "?n * ?k < 2 ^ 32"
    using unsigned_less [of "data_size c", where 'a = nat] ds by simp
  have off: "frame_offset c j = j * ?k" if "j < ?n" for j
  proof -
    have "j * ?k \<le> ?n * ?k" using that by simp
    with total have "j * ?k < 2 ^ 32" by linarith
    then show ?thesis unfolding frame_offset_def by (rule word32_offset)
  qed
  have room: "j * ?k + ?k \<le> length (raw_data c)" if "j < ?n" for j
  proof -
    have "Suc j * ?k \<le> ?n * ?k" using that by (intro mult_le_mono1) simp
    then show ?thesis using len ds by (simp add: add.commute)
  qed
  have fe: "\<forall>j < ?n. frame_end T c j \<le> length (raw_data c)"
    using off room k by (simp add: frame_end_def)
  have split: "WavData_ctor T c = Inr ([], ?d)"
    using bits fe by (rule WavData_ctor_in_bounds)
  have bps8: "unat (bits_per_sample c div 8) = ?sz"
    using bits by (simp add: unat_div)
  have "unat (num_channels c * (bits_per_sample c div 8)) = (unat (num_channels c) * ?sz) mod 2 ^ 16"
    using unat_word_ariths(2) [of "num_channels c" "bits_per_sample c div 8"]
    by (simp only: bps8 len_of_numeral_defs) simp
  also have "\<dots> = ?k"
    using ba unsigned_less [of "block_align c", where 'a = nat] by simp
  finally have ba': "num_channels c * (bits_per_sample c div 8) = block_align c"
    by (simp add: word_unat_eq_iff)
  have "unat (num_samples c * ucast (block_align c) :: 32 word) = (?n * ?k) mod 2 ^ 32"
    by (simp add: unat_word_ariths)
  also have "\<dots> = unat (data_size c)"
    using ds total by simp
  finally have ds': "num_samples c * ucast (block_align c) = data_size c"
    by (simp add: word_unat_eq_iff)
  have frame: "frame_bytes T ?d j = take ?k (drop (j * ?k) (raw_data c))" if "j < ?n" for j
  proof -
    have 1: "to_bytes T (sample1 T c j) = take ?sz (drop (j * ?k) (raw_data c))"
      unfolding sample1_def off [OF that]
      using room [OF that] k by (intro to_bytes_from_bytes) (simp split: if_splits)
    show ?thesis
    proof (cases "num_channels c = 2")
      case False
      with 1 k that show ?thesis by (simp add: frame_bytes_def)
    next
      case True
      have 2: "to_bytes T (sample2 T c j) = take ?sz (drop (j * ?k + ?sz) (raw_data c))"
        unfolding sample2_def off [OF that]
        using room [OF that] k True by (intro to_bytes_from_bytes) simp
      have "take ?k (drop (j * ?k) (raw_data c)) =
          take ?sz (drop (j * ?k) (raw_data c)) @ take ?sz (drop (j * ?k + ?sz) (raw_data c))"
        using k True take_add [of ?sz ?sz "drop (j * ?k) (raw_data c)"]
        by (simp add: mult_2 add.commute)
      with 1 2 True that show ?thesis by (simp add: frame_bytes_def)
    qed
  qed
  have "join_loop T ?d (block_align c) 0 (replicate (?n * ?k) 0) =
    Inr (take (0 * ?k) (replicate (?n * ?k) 0)
         @ concat (map (frame_bytes T ?d) [0..<unat (wd_num_samples ?d)]))"
    using k total by (intro join_loop_canonical) simp_all
  also have "map (frame_bytes T ?d) [0..<unat (wd_num_samples ?d)] =
      map (\<lambda>j. take ?k (drop (j * ?k) (raw_data c))) [0..<?n]"
    using frame by simp
  finally have "join_loop T ?d (block_align c) 0 (replicate (?n * ?k) 0) = Inr (raw_data c)"
    using len ds by (simp add: concat_frames_take)
  then have "toWavFile T ?d = Inr \<lparr>chunk_size = 36 + data_size c, num_channels = num_channels c,
      sample_rate = sample_rate c, block_align = block_align c,
      bits_per_sample = bits_per_sample c, data_size = data_size c,
      num_samples = num_samples c, raw_data = raw_data c\<rparr>"
    using ds by (simp add: toWavFile_def ba' ds' Let_def)
  with split show ?thesis by blast
qed

lemma save_ignores_stored_sizes:
  "save opened (wav\<lparr>block_align := ba, num_samples := n\<rparr>) = save opened wav"
  by (simp add: save_def Let_def split: option.split)

lemma save_length:
  assumes "save True wav = Inr out"
  shows "length out = 44 + unat (data_size wav)"
  using assms
  by (auto simp: save_def Let_def mem_read_def RIFF_def WAVE_def fmt_tag_def data_tag_def
      split: if_splits)

text \<open>
  The fields of the header \<open>save\<close> writes: the size field at offset 4 is the stored
  \<open>chunk_size\<close>; the byte rate at offset 28 and the block align at offset 32 are computed
  from the channel count and the bit depth.
\<close>

lemma save_header_fields:
  assumes "save True wav = Inr out"
  shows "take 4 (drop 4 out) = u32_bytes (chunk_size wav)"
    and "take 4 (drop 28 out) =
      u32_bytes (sample_rate wav * ucast (num_channels wav * (bits_per_sample wav div 8)))"
    and "take 2 (drop 32 out) = u16_bytes (num_channels wav * (bits_per_sample wav div 8))"
    and "take 4 (drop 40 out) = u32_bytes (data_size wav)"
    and "drop 44 out = take (unat (data_size wav)) (raw_data wav)"
  using assms
  by (auto simp: save_def Let_def mem_read_def RIFF_def WAVE_def fmt_tag_def data_tag_def
      split: if_splits)

section \<open>Properties of rounding\<close>

lemma expo_lower:
  assumes "0 < x"
  shows "2 powi expo x \<le> x"
proof (cases "1 \<le> x")
  case True
  then have pos: "0 < \<lfloor>x\<rfloor>" by simp
  then have b: "2 ^ nat (bitlen \<lfloor>x\<rfloor> - 1) \<le> \<lfloor>x\<rfloor>"
    using bitlen_bounds by blast
  have "1 \<le> bitlen \<lfloor>x\<rfloor>"
    using pos by (simp add: bitlen_alt_def)
  then have "(2 :: real) powi expo x = 2 ^ nat (bitlen \<lfloor>x\<rfloor> - 1)"
    using True by (simp add: expo_def power_int_def)
  also have "\<dots> = of_int (2 ^ nat (bitlen \<lfloor>x\<rfloor> - 1))" by simp
  also have "\<dots> \<le> of_int \<lfloor>x\<rfloor>"
    using b by (simp only: of_int_le_iff)
  also have "\<dots> \<le> x" by simp
  finally show ?thesis .
next
  case False
  let ?c = "\<lceil>1 / x\<rceil>"
  let ?m = "bitlen (?c - 1)"
  from False assms have "1 < 1 / x" by simp
  then have c: "2 \<le> ?c" by linarith
  then have "?c - 1 < 2 ^ nat ?m"
    using bitlen_bounds [of "?c - 1"] by simp
  then have cm: "?c \<le> 2 ^ nat ?m" by simp
  have "1 / x \<le> of_int ?c" by (rule le_of_int_ceiling)
  also have "(of_int ?c :: real) \<le> of_int (2 ^ nat ?m)"
    using cm by (simp only: of_int_le_iff)
  also have "\<dots> = 2 ^ nat ?m" by simp
  finally have "1 / x \<le> 2 ^ nat ?m" .
  then have "1 / 2 ^ nat ?m \<le> x"
    using assms by (simp add: field_simps)
  moreover have "(2 :: real) powi expo x = 1 / 2 ^ nat ?m"
    using False bitlen_nonneg [of "?c - 1"]
    by (simp add: expo_def power_int_def inverse_eq_divide power_one_over)
  ultimately show ?thesis by simp
qed

lemma round_even_cases: "round_even y = \<lfloor>y\<rfloor> \<or> round_even y = \<lfloor>y\<rfloor> + 1"
  by (simp add: round_even_def Let_def)

lemma round_even_error: "\<bar>of_int (round_even y) - y\<bar> \<le> 1 / 2"
proof -
  have "of_int \<lfloor>y\<rfloor> \<le> y" "y < of_int \<lfloor>y\<rfloor> + 1" by linarith+
  then show ?thesis
    by (auto simp: round_even_def Let_def abs_le_iff)
qed

lemma round_even_of_int [simp]: "round_even (of_int k) = k"
  by (simp add: round_even_def)

lemma round_even_le: "y \<le> of_int k \<Longrightarrow> round_even y \<le> k"
proof -
  assume le: "y \<le> of_int k"
  show ?thesis
  proof (cases "y = of_int k")
    case True
    then show ?thesis by simp
  next
    case False
    with le have "y < of_int k" by simp
    then have "\<lfloor>y\<rfloor> < k" by (simp add: floor_less_iff)
    then show ?thesis using round_even_cases [of y] by auto
  qed
qed

lemma round_even_ge: "of_int k \<le> y \<Longrightarrow> k \<le> round_even y"
proof -
  assume "of_int k \<le> y"
  then have "k \<le> \<lfloor>y\<rfloor>" by (simp add: le_floor_iff)
  then show ?thesis using round_even_cases [of y] by auto
qed

lemma rnd_0 [simp]: "rnd 0 = 0"
  by (simp add: rnd_def)

lemma expo_le_52:
  assumes "x \<noteq> 0" and "\<bar>x\<bar> < 2 ^ 53"
  shows "expo \<bar>x\<bar> \<le> 52"
proof (rule ccontr)
  assume "\<not> expo \<bar>x\<bar> \<le> 52"
  then have "53 \<le> expo \<bar>x\<bar>" by simp
  then have "(2 :: real) powi 53 \<le> 2 powi expo \<bar>x\<bar>"
    by (intro power_int_increasing) simp_all
  also have "\<dots> \<le> \<bar>x\<bar>"
    using assms(1) by (intro expo_lower) simp
  finally show False using assms(2) by simp
qed

text \<open>
  Below \<open>2 ^ 53\<close> in magnitude, the numbers of the format are the multiples of a unit
  \<open>1 / N\<close> with \<open>N\<close> a whole number.
\<close>

lemma rnd_scaled:
  assumes "x \<noteq> 0" and "\<bar>x\<bar> < 2 ^ 53"
  obtains N :: nat where "0 < N" and "rnd x = of_int (round_even (x * of_nat N)) / of_nat N"
proof -
  let ?e = "expo \<bar>x\<bar>"
  let ?N = "2 ^ nat (52 - ?e) :: nat"
  have e: "?e \<le> 52" using assms by (rule expo_le_52)
  then have u: "(2 :: real) powi (?e - 52) = 1 / of_nat ?N"
    by (simp add: power_int_def inverse_eq_divide power_one_over)
  have "rnd x = of_int (round_even (x * of_nat ?N)) / of_nat ?N"
    using assms(1) by (simp add: rnd_def Let_def u)
  moreover have "0 < ?N" by simp
  ultimately show ?thesis using that by blast
qed

lemma rnd_of_int:
  assumes "\<bar>k\<bar> < 2 ^ 53"
  shows "rnd (of_int k) = of_int k"
proof (cases "k = 0")
  case True
  then show ?thesis by simp
next
  case False
  have "\<bar>of_int k :: real\<bar> < 2 ^ 53"
    using assms by (metis of_int_abs of_int_less_iff of_int_numeral of_int_power)
  with False obtain N :: nat where N: "0 < N"
    "rnd (of_int k) = of_int (round_even (of_int k * of_nat N)) / of_nat N"
    using rnd_scaled [of "of_int k"] by auto
  have "(of_int k * of_nat N :: real) = of_int (k * int N)" by simp
  then have "round_even (of_int k * of_nat N) = k * int N"
    by (simp only: round_even_of_int)
  with N show ?thesis by simp
qed

lemma rnd_between_ints:
  assumes "of_int a \<le> x" and "x \<le> of_int b" and "\<bar>x\<bar> < 2 ^ 53"
  shows "of_int a \<le> rnd x \<and> rnd x \<le> of_int b"
proof (cases "x = 0")
  case True
  with assms show ?thesis by simp
next
  case False
  with assms(3) obtain N :: nat where N: "0 < N"
    "rnd x = of_int (round_even (x * of_nat N)) / of_nat N"
    using rnd_scaled [of x] by auto
  have "of_int (a * int N) \<le> x * of_nat N"
    using assms(1) N(1) by simp
  then have lo: "a * int N \<le> round_even (x * of_nat N)"
    by (rule round_even_ge)
  have "x * of_nat N \<le> of_int (b * int N)"
    using assms(2) N(1) by simp
  then have hi: "round_even (x * of_nat N) \<le> b * int N"
    by (rule round_even_le)
  have "of_int a \<le> (of_int (round_even (x * of_nat N)) :: real) / of_nat N"
  proof -
    have "(of_int (a * int N) :: real) \<le> of_int (round_even (x * of_nat N))"
      using lo by (simp only: of_int_le_iff)
    then show ?thesis using N(1) by (simp add: field_simps)
  qed
  moreover have "(of_int (round_even (x * of_nat N)) :: real) / of_nat N \<le> of_int b"
  proof -
    have "(of_int (round_even (x * of_nat N)) :: real) \<le> of_int (b * int N)"
      using hi by (simp only: of_int_le_iff)
    then show ?thesis using N(1) by (simp add: field_simps)
  qed
  ultimately show ?thesis using N(2) by simp
qed

lemma rnd_rel_error:
  "\<bar>rnd x - x\<bar> \<le> \<bar>x\<bar> / 2 ^ 53"
proof (cases "x = 0")
  case True
  then show ?thesis by simp
next
  case False
  let ?u = "2 powi (expo \<bar>x\<bar> - 52) :: real"
  have u: "0 < ?u" by simp
  have "rnd x - x = (of_int (round_even (x / ?u)) - x / ?u) * ?u"
    using False u by (simp add: rnd_def Let_def field_simps)
  then have "\<bar>rnd x - x\<bar> = \<bar>of_int (round_even (x / ?u)) - x / ?u\<bar> * ?u"
    using u by (simp add: abs_mult)
  also have "\<dots> \<le> 1 / 2 * ?u"
    using round_even_error [of "x / ?u"] u by (intro mult_right_mono) simp_all
  also have "\<dots> = 2 powi expo \<bar>x\<bar> / 2 ^ 53"
    by (simp add: power_int_diff)
  also have "\<dots> \<le> \<bar>x\<bar> / 2 ^ 53"
    using expo_lower [of "\<bar>x\<bar>"] False by (intro divide_right_mono) simp_all
  finally show ?thesis .
qed

section \<open>Properties of \<open>convertSample\<close> and \<open>reencode\<close>\<close>

lemma to_double_exact: "\<bar>v\<bar> < 2 ^ 53 \<Longrightarrow> to_double v = of_int v"
  by (simp add: to_double_def rnd_of_int)

lemma c_round_of_int [simp]: "c_round (of_int k) = k"
proof -
  have "\<lfloor>of_int k + 1 / 2 :: real\<rfloor> = k" by linarith
  moreover have "\<lceil>of_int k - 1 / 2 :: real\<rceil> = k" by linarith
  ultimately show ?thesis by (simp add: c_round_def)
qed

lemma c_round_between_ints:
  assumes "of_int a \<le> x" and "x \<le> of_int b"
  shows "a \<le> c_round x \<and> c_round x \<le> b"
proof -
  have "a \<le> \<lfloor>x + 1 / 2\<rfloor>" using assms(1) by linarith
  moreover have "\<lfloor>x + 1 / 2\<rfloor> \<le> b" if "0 \<le> x" using assms(2) by linarith
  moreover have "a \<le> \<lceil>x - 1 / 2\<rceil>" if "x < 0" using assms(1) by linarith
  moreover have "\<lceil>x - 1 / 2\<rceil> \<le> b" using assms(2) by linarith
  ultimately show ?thesis by (auto simp: c_round_def)
qed

lemma c_trunc_of_int [simp]: "c_trunc (of_int k) = k"
  by (simp add: c_trunc_def)

lemma to_ctype_of_int: "in_range T k \<Longrightarrow> to_ctype T (of_int k) = Inr k"
  by (simp add: to_ctype_def)

text \<open>The limits of the types of at most 32 bits.\<close>

lemma limits_32:
  assumes "sizeof T \<le> 4"
  shows "- (2 ^ 31) \<le> numeric_min T" and "numeric_min T \<le> 0"
    and "0 < numeric_max T" and "numeric_max T < 2 ^ 32"
    and "(if is_signed T then to_double (numeric_min T) else 0) = of_int (numeric_min T)"
    and "to_double (numeric_max T) = of_int (numeric_max T)"
  using assms
  by (cases T; simp add: numeric_min_def numeric_max_def to_double_exact)+

lemma in_range_limits [simp]: "in_range T (numeric_min T)" "in_range T (numeric_max T)"
  by (cases T; simp add: in_range_def numeric_min_def numeric_max_def)+

text \<open>
  \<open>convertSample\<close> between types of at most 32 bits, on a value of \<open>From\<close>: the
  differences are exact, and three operations round.
\<close>

lemma convertSample_32:
  assumes "sizeof From \<le> 4" and "sizeof To \<le> 4" and "in_range From s"
  shows "convertSample From To s =
    to_ctype To (of_int (c_round (rnd (rnd (rnd
      (of_int (s - numeric_min From) / of_int (numeric_max From - numeric_min From))
        * of_int (numeric_max To - numeric_min To)) + of_int (numeric_min To)))))"
proof -
  note F = limits_32 [OF assms(1)] and T = limits_32 [OF assms(2)]
  have s: "numeric_min From \<le> s" "s \<le> numeric_max From"
    using assms(3) by (simp_all add: in_range_def)
  have "\<bar>s\<bar> < 2 ^ 53" using s F(1,4) by simp
  then have fs: "to_double s = of_int s" by (rule to_double_exact)
  have "\<bar>s - numeric_min From\<bar> < 2 ^ 53" using s F(1,4) by simp
  then have d1: "fsub (of_int s) (of_int (numeric_min From)) = of_int (s - numeric_min From)"
    using rnd_of_int [of "s - numeric_min From"] by (simp add: fsub_def)
  have "\<bar>numeric_max From - numeric_min From\<bar> < 2 ^ 53" using F(1-4) by simp
  then have d2: "fsub (of_int (numeric_max From)) (of_int (numeric_min From)) =
      of_int (numeric_max From - numeric_min From)"
    using rnd_of_int [of "numeric_max From - numeric_min From"] by (simp add: fsub_def)
  have "\<bar>numeric_max To - numeric_min To\<bar> < 2 ^ 53" using T(1-4) by simp
  then have d3: "fsub (of_int (numeric_max To)) (of_int (numeric_min To)) =
      of_int (numeric_max To - numeric_min To)"
    using rnd_of_int [of "numeric_max To - numeric_min To"] by (simp add: fsub_def)
  show ?thesis
    unfolding convertSample_def Let_def F(5,6) T(5,6) fs d1 d2 d3
    by (simp only: fdiv_def fmul_def fadd_def)
qed

lemma convertSample_min:
  assumes "sizeof From \<le> 4" and "sizeof To \<le> 4"
  shows "convertSample From To (numeric_min From) = Inr (numeric_min To)"
proof -
  have "\<bar>numeric_min To\<bar> < 2 ^ 53"
    using limits_32(1,2) [OF assms(2)] by simp
  then have "rnd (of_int (numeric_min To)) = of_int (numeric_min To)"
    by (rule rnd_of_int)
  then show ?thesis
    by (simp add: convertSample_32 [OF assms] to_ctype_of_int)
qed

lemma convertSample_max:
  assumes "sizeof From \<le> 4" and "sizeof To \<le> 4"
  shows "convertSample From To (numeric_max From) = Inr (numeric_max To)"
proof -
  note F = limits_32 [OF assms(1)] and T = limits_32 [OF assms(2)]
  have "numeric_max From - numeric_min From \<noteq> 0" using F(2,3) by simp
  then have one: "(of_int (numeric_max From - numeric_min From) :: real)
      / of_int (numeric_max From - numeric_min From) = 1"
    by simp
  have r1: "rnd 1 = 1" using rnd_of_int [of 1] by simp
  have "\<bar>numeric_max To - numeric_min To\<bar> < 2 ^ 53" using T(1-4) by simp
  then have r2: "rnd (of_int (numeric_max To - numeric_min To)) =
      of_int (numeric_max To - numeric_min To)"
    by (rule rnd_of_int)
  have "\<bar>numeric_max To\<bar> < 2 ^ 53" using T(3,4) by simp
  then have r3: "rnd (of_int (numeric_max To)) = of_int (numeric_max To)"
    by (rule rnd_of_int)
  have "(of_int (numeric_max To - numeric_min To) + of_int (numeric_min To) :: real) =
      of_int (numeric_max To)"
    by simp
  then show ?thesis
    by (simp only: convertSample_32 [OF assms in_range_limits(2)] one r1 mult_1 r2 r3
        c_round_of_int to_ctype_of_int [OF in_range_limits(2)])
qed

lemma convertSample_total:
  assumes "sizeof From \<le> 4" and "sizeof To \<le> 4" and "in_range From s"
  shows "\<exists>v. convertSample From To s = Inr v \<and> in_range To v"
proof -
  note F = limits_32 [OF assms(1)] and T = limits_32 [OF assms(2)]
  have s: "numeric_min From \<le> s" "s \<le> numeric_max From"
    using assms(3) by (simp_all add: in_range_def)
  let ?DF = "numeric_max From - numeric_min From"
  let ?DT = "numeric_max To - numeric_min To"
  define q :: real where "q = of_int (s - numeric_min From) / of_int ?DF"
  define p where "p = rnd q * of_int ?DT"
  define r where "r = rnd p + of_int (numeric_min To)"
  have DF: "0 < ?DF" using F(2,3) by simp
  have DT: "0 < ?DT" "?DT < 2 ^ 33" using T(1-4) by simp_all
  have q: "0 \<le> q" "q \<le> 1"
    using s DF by (simp_all add: q_def)
  then have "of_int 0 \<le> q" "q \<le> of_int 1" "\<bar>q\<bar> < 2 ^ 53" by simp_all
  then have n: "0 \<le> rnd q" "rnd q \<le> 1"
    using rnd_between_ints [of 0 q 1] by simp_all
  have DTr: "(0 :: real) < of_int ?DT" "(of_int ?DT :: real) < 2 ^ 33"
    using DT by (simp, metis of_int_less_iff of_int_numeral of_int_power)
  have p: "0 \<le> p" "p \<le> of_int ?DT"
    using n DTr(1) unfolding p_def by (simp_all add: mult_le_cancel_right1)
  then have "of_int 0 \<le> p" "p \<le> of_int ?DT" "\<bar>p\<bar> < 2 ^ 53"
    using DTr(2) by simp_all
  then have rp: "0 \<le> rnd p" "rnd p \<le> of_int ?DT"
    using rnd_between_ints [of 0 p ?DT] by simp_all
  have r: "of_int (numeric_min To) \<le> r" "r \<le> of_int (numeric_max To)"
    using rp by (simp_all add: r_def)
  have "(of_int (numeric_min To) :: real) \<ge> - (2 ^ 31)"
    using T(1) by (metis of_int_le_iff of_int_minus of_int_numeral of_int_power)
  moreover have "(of_int (numeric_max To) :: real) < 2 ^ 32"
    using T(4) by (metis of_int_less_iff of_int_numeral of_int_power)
  ultimately have "\<bar>r\<bar> < 2 ^ 53" using r by simp
  then have rr: "of_int (numeric_min To) \<le> rnd r" "rnd r \<le> of_int (numeric_max To)"
    using rnd_between_ints [OF r] by simp_all
  have "in_range To (c_round (rnd r))"
    using c_round_between_ints [OF rr] by (simp add: in_range_def)
  then show ?thesis
    unfolding convertSample_32 [OF assms] r_def p_def q_def
    by (simp only: to_ctype_of_int) blast
qed

lemma reencode_loop_result:
  assumes "\<forall>j. i \<le> j \<and> j < unat (wd_num_samples input) \<longrightarrow>
      j < length (channel1 input) \<and> convertSample From To (channel1 input ! j) = Inr (f j)"
    and "wd_num_channels input = 2 \<longrightarrow> (\<forall>j. i \<le> j \<and> j < unat (wd_num_samples input) \<longrightarrow>
      j < length (channel2 input) \<and> convertSample From To (channel2 input ! j) = Inr (g j))"
    and "i \<le> unat (wd_num_samples input)"
    and "length ch1 = unat (wd_num_samples input)"
    and "wd_num_channels input = 2 \<longrightarrow> length ch2 = unat (wd_num_samples input)"
  shows "reencode_loop From To input i ch1 ch2 =
    Inr (take i ch1 @ map f [i..<unat (wd_num_samples input)],
         if wd_num_channels input = 2
         then take i ch2 @ map g [i..<unat (wd_num_samples input)] else ch2)"
  using assms
proof (induction From To input i ch1 ch2 rule: reencode_loop.induct)
  case (1 From To input i ch1 ch2)
  let ?n = "unat (wd_num_samples input)"
  show ?case
  proof (cases "i < ?n")
    case False
    with "1.prems" show ?thesis
      by (subst reencode_loop.simps) simp
  next
    case True
    have c1: "i < length (channel1 input)"
      "convertSample From To (channel1 input ! i) = Inr (f i)"
      using "1.prems"(1) True by simp_all
    have upt: "[i..<?n] = i # [Suc i..<?n]"
      using True by (simp add: upt_conv_Cons)
    have t1: "take (Suc i) (ch1[i := x]) = take i ch1 @ [x]" for x
      using True "1.prems"(4) by (simp add: take_Suc_conv_app_nth)
    show ?thesis
    proof (cases "wd_num_channels input = 2")
      case mono: False
      have "reencode_loop From To input (Suc i) (ch1[i := f i]) ch2 =
        Inr (take (Suc i) (ch1[i := f i]) @ map f [Suc i..<?n], ch2)"
        using "1.IH"(2) [of "f i"] True c1 mono "1.prems" by simp
      then show ?thesis
        using True c1 mono upt t1 by (subst reencode_loop.simps) simp
    next
      case stereo: True
      have c2: "i < length (channel2 input)"
        "convertSample From To (channel2 input ! i) = Inr (g i)"
        using "1.prems"(2) True stereo by simp_all
      have t2: "take (Suc i) (ch2[i := x]) = take i ch2 @ [x]" for x
        using True "1.prems"(5) stereo by (simp add: take_Suc_conv_app_nth)
      have "reencode_loop From To input (Suc i) (ch1[i := f i]) (ch2[i := g i]) =
        Inr (take (Suc i) (ch1[i := f i]) @ map f [Suc i..<?n],
             take (Suc i) (ch2[i := g i]) @ map g [Suc i..<?n])"
        using "1.IH"(1) [of "f i" "g i"] True c1 c2 stereo "1.prems" by simp
      then show ?thesis
        using True c1 c2 stereo upt t1 t2 by (subst reencode_loop.simps) simp
    qed
  qed
qed

text \<open>
  \<open>reencode\<close> on a well-formed channel set of a type of at most 32 bits: every sample is
  converted, none of the conversions is undefined.
\<close>

lemma reencode_32:
  assumes "sizeof From \<le> 4" and "sizeof To \<le> 4"
    and "length (channel1 d) = unat (wd_num_samples d)"
    and "wd_num_channels d = 2 \<longrightarrow> length (channel2 d) = unat (wd_num_samples d)"
    and "\<forall>s\<in>set (channel1 d). in_range From s"
    and "wd_num_channels d = 2 \<longrightarrow> (\<forall>s\<in>set (channel2 d). in_range From s)"
  shows "\<exists>out. reencode From To d = Inr out
    \<and> wd_sample_rate out = wd_sample_rate d \<and> wd_num_channels out = wd_num_channels d
    \<and> wd_num_samples out = wd_num_samples d \<and> wd_bits_per_sample out = of_nat (sizeof To * 8)
    \<and> length (channel1 out) = unat (wd_num_samples d)
    \<and> (\<forall>i < unat (wd_num_samples d).
          convertSample From To (channel1 d ! i) = Inr (channel1 out ! i))
    \<and> (wd_num_channels d = 2 \<longrightarrow> length (channel2 out) = unat (wd_num_samples d)
          \<and> (\<forall>i < unat (wd_num_samples d).
                convertSample From To (channel2 d ! i) = Inr (channel2 out ! i)))"
proof -
  let ?n = "unat (wd_num_samples d)"
  have "\<forall>j. \<exists>v. j < ?n \<longrightarrow> convertSample From To (channel1 d ! j) = Inr v"
    using convertSample_total [OF assms(1,2)] assms(3,5) by (metis nth_mem)
  then obtain f where f: "\<forall>j. j < ?n \<longrightarrow> convertSample From To (channel1 d ! j) = Inr (f j)"
    by metis
  have "\<forall>j. \<exists>v. wd_num_channels d = 2 \<and> j < ?n \<longrightarrow>
      convertSample From To (channel2 d ! j) = Inr v"
    using convertSample_total [OF assms(1,2)] assms(4,6) by (metis nth_mem)
  then obtain g where g: "\<forall>j. wd_num_channels d = 2 \<and> j < ?n \<longrightarrow>
      convertSample From To (channel2 d ! j) = Inr (g j)"
    by metis
  have loop: "reencode_loop From To d 0 (replicate ?n 0)
      (if wd_num_channels d = 2 then replicate ?n 0 else []) =
    Inr (take 0 (replicate ?n 0) @ map f [0..<?n],
         if wd_num_channels d = 2
         then take 0 (if wd_num_channels d = 2 then replicate ?n 0 else []) @ map g [0..<?n]
         else (if wd_num_channels d = 2 then replicate ?n 0 else []))"
    using f g assms(3,4) by (intro reencode_loop_result) simp_all
  let ?out = "\<lparr>wd_sample_rate = wd_sample_rate d, wd_num_channels = wd_num_channels d,
     wd_bits_per_sample = of_nat (sizeof To * 8), wd_num_samples = wd_num_samples d,
     channel1 = map f [0..<?n],
     channel2 = (if wd_num_channels d = 2 then map g [0..<?n] else [])\<rparr>"
  have "reencode From To d = Inr ?out"
    using loop by (simp add: reencode_def)
  moreover have "\<forall>i < ?n. convertSample From To (channel1 d ! i) = Inr (channel1 ?out ! i)"
    using f by simp
  moreover have "wd_num_channels d = 2 \<longrightarrow>
    (\<forall>i < ?n. convertSample From To (channel2 d ! i) = Inr (channel2 ?out ! i))"
    using g by simp
  ultimately show ?thesis
    by (intro exI [of _ ?out]) simp
qed

section \<open>Properties of \<open>resample\<close>\<close>

lemma uint32_abs_bound: "\<bar>uint (w :: 32 word)\<bar> < 2 ^ 53"
proof -
  have "uint w < 2 ^ 32" using unsigned_less [of w, where 'a = int] by simp
  moreover have "0 \<le> uint w" by simp
  ultimately show ?thesis by simp
qed

lemma to_double_uint32: "to_double (uint (w :: 32 word)) = unsigned w"
  using to_double_exact [OF uint32_abs_bound, of w] by simp

lemma floor_unsigned [simp]: "\<lfloor>unsigned (w :: 32 word) :: real\<rfloor> = uint w"
proof -
  have "\<lfloor>of_int (uint w) :: real\<rfloor> = uint w" by (rule floor_of_int)
  then show ?thesis by simp
qed

lemma to_uint32_unsigned [simp]: "to_uint32 (unsigned (w :: 32 word)) = Inr w"
proof -
  have "c_trunc (of_int (uint w)) = uint w" by (rule c_trunc_of_int)
  then have "c_trunc (unsigned w) = uint w" by simp
  moreover have "uint w < 2 ^ 32" using unsigned_less [of w, where 'a = int] by simp
  ultimately show ?thesis by (simp add: to_uint32_def)
qed

lemma rnd_unsigned [simp]: "rnd (unsigned (w :: 32 word)) = unsigned w"
  using rnd_of_int [OF uint32_abs_bound, of w] by simp

lemma rnd_1 [simp]: "rnd 1 = 1"
  using rnd_of_int [of 1] by simp

lemma in_range_32_abs:
  assumes "sizeof T \<le> 4" and "in_range T v"
  shows "\<bar>v\<bar> < 2 ^ 53"
  using limits_32(1,4) [OF assms(1)] assms(2) by (simp add: in_range_def abs_less_iff)

lemma resample_ratio_same:
  assumes "wd_sample_rate x \<noteq> 0"
  shows "resample_ratio x (wd_sample_rate x) = 1"
  using assms by (simp add: resample_ratio_def fdiv_def to_double_uint32 unsigned_eq_0_iff)

lemma src_index_ratio_1:
  assumes "i < 2 ^ 32"
  shows "src_index_of 1 i = unsigned (of_nat i :: 32 word)"
proof -
  have u: "uint (of_nat i :: 32 word) = int i"
    using assms by (simp add: uint_nat unat_of_nat)
  have "to_double (uint (of_nat i :: 32 word)) = unsigned (of_nat i :: 32 word)"
    by (rule to_double_uint32)
  then show ?thesis
    by (simp add: src_index_of_def fdiv_def u)
qed

lemma index1_of_bound:
  assumes "unat index0 < unat (wd_num_samples x)"
  shows "unat (index1_of x index0) < unat (wd_num_samples x)"
  using assms by (simp add: index1_of_def word_less_nat_alt)

lemma interpolate_frac_0:
  assumes "sizeof T \<le> 4" and "i0 < length chan" and "i1 < length chan"
    and "\<forall>s\<in>set chan. in_range T s"
  shows "interpolate T chan i0 i1 0 = Inr (chan ! i0)"
proof -
  have r0: "in_range T (chan ! i0)" and r1: "in_range T (chan ! i1)"
    using assms(2-4) by simp_all
  have s0: "to_double (chan ! i0) = of_int (chan ! i0)"
    using in_range_32_abs [OF assms(1) r0] by (rule to_double_exact)
  have s1: "to_double (chan ! i1) = of_int (chan ! i1)"
    using in_range_32_abs [OF assms(1) r1] by (rule to_double_exact)
  have e: "rnd (of_int (chan ! i0)) = of_int (chan ! i0)"
    using in_range_32_abs [OF assms(1) r0] by (rule rnd_of_int)
  have "fadd (fmul (fsub 1 0) (of_int (chan ! i0))) (fmul 0 (of_int (chan ! i1))) =
      of_int (chan ! i0)"
    by (simp add: fadd_def fmul_def fsub_def e)
  then show ?thesis
    using assms(2,3) r0 by (simp add: interpolate_def s0 s1 to_ctype_of_int)
qed

lemma resample_loop_identity:
  assumes "sizeof T \<le> 4" and "n = unat (wd_num_samples x)"
    and "ch1 = channel1 x" and "ch2 = channel2 x"
    and "length (channel1 x) = n"
    and "wd_num_channels x = 2 \<longrightarrow> length (channel2 x) = n"
    and "\<forall>s\<in>set (channel1 x). in_range T s"
    and "wd_num_channels x = 2 \<longrightarrow> (\<forall>s\<in>set (channel2 x). in_range T s)"
  shows "resample_loop T x 1 n i ch1 ch2 = Inr (channel1 x, channel2 x)"
  using assms
proof (induction T x "1 :: real" n i ch1 ch2 rule: resample_loop.induct)
  case (1 T x n i ch1 ch2)
  show ?case
  proof (cases "i < n")
    case False
    with "1.prems" show ?thesis by (subst resample_loop.simps) simp
  next
    case True
    let ?i0 = "of_nat i :: 32 word"
    have n32: "n < 2 ^ 32"
      using "1.prems"(2) unsigned_less [of "wd_num_samples x", where 'a = nat] by simp
    with True have i32: "i < 2 ^ 32" by simp
    have ui: "unat ?i0 = i" using i32 by (simp add: unat_of_nat)
    have src: "src_index_of 1 i = unsigned ?i0"
      using i32 by (rule src_index_ratio_1)
    have idx: "to_uint32 (of_int \<lfloor>src_index_of 1 i\<rfloor>) = Inr ?i0"
      by (simp add: src)
    have fr: "fsub (src_index_of 1 i) (to_double (uint ?i0)) = 0"
      by (simp add: src fsub_def to_double_uint32)
    have i1: "unat (index1_of x ?i0) < n"
      using True ui "1.prems"(2) index1_of_bound [of ?i0 x] by simp
    have v1: "interpolate T (channel1 x) (unat ?i0) (unat (index1_of x ?i0)) 0 =
        Inr (channel1 x ! i)"
      using interpolate_frac_0 [OF "1.prems"(1), of "unat ?i0" "channel1 x"
          "unat (index1_of x ?i0)"] True i1 "1.prems"(5,7) ui by simp
    have v1': "interpolate T (channel1 x) (unat ?i0) (unat (index1_of x ?i0))
        (fsub (src_index_of 1 i) (to_double (uint ?i0))) = Inr (channel1 x ! i)"
      by (simp only: fr v1)
    have id1: "ch1[i := channel1 x ! i] = ch1"
      using "1.prems"(3) by simp
    show ?thesis
    proof (cases "wd_num_channels x = 2")
      case mono: False
      have "resample_loop T x 1 n (Suc i) (ch1[i := channel1 x ! i]) ch2 =
          Inr (channel1 x, channel2 x)"
        using "1.hyps"(2) [OF True one_neq_zero refl idx refl refl v1' mono] "1.prems"
        by simp
      then show ?thesis
        using True mono idx v1 by (subst resample_loop.simps) (simp add: fr)
    next
      case stereo: True
      have v2: "interpolate T (channel2 x) (unat ?i0) (unat (index1_of x ?i0)) 0 =
          Inr (channel2 x ! i)"
        using interpolate_frac_0 [OF "1.prems"(1), of "unat ?i0" "channel2 x"
            "unat (index1_of x ?i0)"] True i1 "1.prems"(6,8) ui stereo by simp
      have v2': "interpolate T (channel2 x) (unat ?i0) (unat (index1_of x ?i0))
          (fsub (src_index_of 1 i) (to_double (uint ?i0))) = Inr (channel2 x ! i)"
        by (simp only: fr v2)
      have id2: "ch2[i := channel2 x ! i] = ch2"
        using "1.prems"(4) by simp
      have "resample_loop T x 1 n (Suc i) (ch1[i := channel1 x ! i]) (ch2[i := channel2 x ! i]) =
          Inr (channel1 x, channel2 x)"
        using "1.hyps"(1) [OF True one_neq_zero refl idx refl refl v1' stereo v2'] "1.prems"
        by simp
      then show ?thesis
        using True stereo idx v1 v2 by (subst resample_loop.simps) (simp add: fr)
    qed
  qed
qed

lemma resize_samples_same [simp]: "length xs = n \<Longrightarrow> resize_samples n xs = xs"
  by (simp add: resize_samples_def)

lemma resample_same_rate:
  assumes "wd_sample_rate x \<noteq> 0" and "sizeof T \<le> 4"
    and "length (channel1 x) = unat (wd_num_samples x)"
    and "wd_num_channels x = 2 \<longrightarrow> length (channel2 x) = unat (wd_num_samples x)"
    and "\<forall>s\<in>set (channel1 x). in_range T s"
    and "wd_num_channels x = 2 \<longrightarrow> (\<forall>s\<in>set (channel2 x). in_range T s)"
  shows "resample T x (wd_sample_rate x) = Inr x"
proof -
  let ?n = "wd_num_samples x"
  have ratio: "resample_ratio x (wd_sample_rate x) = 1"
    using assms(1) by (rule resample_ratio_same)
  have count: "to_uint32 (fmul (to_double (uint ?n)) 1) = Inr ?n"
    by (simp add: fmul_def to_double_uint32)
  have init2: "(if wd_num_channels x = 2 then resize_samples (unat ?n) (channel2 x)
      else channel2 x) = channel2 x"
    using assms(4) by simp
  have loop: "resample_loop T x 1 (unat ?n) 0 (channel1 x) (channel2 x) =
      Inr (channel1 x, channel2 x)"
    using assms(2-6) by (intro resample_loop_identity) simp_all
  show ?thesis
    using assms(1,3)
    by (simp add: resample_def ratio count init2 loop)
qed

lemma rnd_nonneg: "0 \<le> x \<Longrightarrow> 0 \<le> rnd x"
proof -
  assume x: "0 \<le> x"
  have "\<bar>rnd x - x\<bar> \<le> x / 2 ^ 53"
    using rnd_rel_error [of x] x by simp
  moreover have "x / 2 ^ 53 \<le> x" using x by (simp add: field_simps)
  ultimately show ?thesis by linarith
qed

lemma rnd_upper: "0 \<le> x \<Longrightarrow> rnd x \<le> x * (1 + 1 / 2 ^ 53)"
proof -
  assume x: "0 \<le> x"
  have "\<bar>rnd x - x\<bar> \<le> x / 2 ^ 53"
    using rnd_rel_error [of x] x by simp
  then have "rnd x \<le> x + x / 2 ^ 53" by linarith
  also have "\<dots> = x * (1 + 1 / 2 ^ 53)" by (simp add: algebra_simps)
  finally show ?thesis .
qed

lemma rnd_lower: "0 \<le> x \<Longrightarrow> x * (1 - 1 / 2 ^ 53) \<le> rnd x"
proof -
  assume x: "0 \<le> x"
  have "\<bar>rnd x - x\<bar> \<le> x / 2 ^ 53"
    using rnd_rel_error [of x] x by simp
  then have "x - x / 2 ^ 53 \<le> rnd x" by linarith
  moreover have "x - x / 2 ^ 53 = x * (1 - 1 / 2 ^ 53)" by (simp add: algebra_simps)
  ultimately show ?thesis by simp
qed

lemma unsigned_real_nonneg [simp]: "0 \<le> (unsigned (w :: 'a::len word) :: real)"
proof -
  have "(unsigned w :: real) = real (unat w)" by simp
  then show ?thesis by (simp only: of_nat_0_le_iff)
qed

lemma to_uint32_Inr:
  assumes "to_uint32 p = Inr m"
  shows "0 \<le> c_trunc p" and "c_trunc p < 2 ^ 32" and "int (unat m) = c_trunc p"
proof -
  from assms show 1: "0 \<le> c_trunc p" and 2: "c_trunc p < 2 ^ 32"
    by (simp_all add: to_uint32_def split: if_splits)
  from assms have "m = word_of_int (c_trunc p)"
    by (simp add: to_uint32_def split: if_splits)
  then show "int (unat m) = c_trunc p"
    using 1 2 by (simp add: uint_word_of_int take_bit_int_eq_self flip: uint_nat)
qed

text \<open>
  The source position of an output index stays below the number of source samples, in
  \<open>double\<close> arithmetic: the two roundings of the ratio cannot carry it to the next whole
  number while the product of sample count and ratio is below \<open>2 ^ 32\<close>.
\<close>

lemma src_index_below_num_samples:
  assumes m: "to_uint32 (fmul (to_double (uint (wd_num_samples x))) (resample_ratio x r)) = Inr m"
    and i: "i < unat m"
  shows "resample_ratio x r \<noteq> 0"
    and "0 \<le> src_index_of (resample_ratio x r) i"
    and "src_index_of (resample_ratio x r) i < real (unat (wd_num_samples x))"
proof -
  define \<rho> where "\<rho> = resample_ratio x r"
  define N :: real where "N = unsigned (wd_num_samples x)"
  define p where "p = rnd (N * \<rho>)"
  define a where "a = N * \<rho>"
  have N: "0 \<le> N" by (simp add: N_def)
  have "0 \<le> (unsigned r :: real) / unsigned (wd_sample_rate x)" by simp
  then have rho0: "0 \<le> \<rho>"
    unfolding \<rho>_def resample_ratio_def fdiv_def to_double_uint32 by (rule rnd_nonneg)
  have p_eq: "fmul (to_double (uint (wd_num_samples x))) (resample_ratio x r) = p"
    by (simp add: p_def N_def \<rho>_def fmul_def to_double_uint32)
  note t = to_uint32_Inr [OF m [unfolded p_eq]]
  have "int i < c_trunc p" using i t(3) by linarith
  then have i1: "int i + 1 \<le> c_trunc p" by simp
  have ppos: "0 \<le> p"
  proof (rule ccontr)
    assume "\<not> 0 \<le> p"
    then have "c_trunc p \<le> 0" by (simp add: c_trunc_def)
    with i1 show False by simp
  qed
  then have fl: "c_trunc p = \<lfloor>p\<rfloor>" by (simp add: c_trunc_def)
  have p_ge: "real i + 1 \<le> p"
  proof -
    have "real_of_int (int i + 1) \<le> real_of_int \<lfloor>p\<rfloor>"
      using i1 fl by (simp only: of_int_le_iff)
    also have "\<dots> \<le> p" by simp
    finally show ?thesis by simp
  qed
  have p_lt: "p < 2 ^ 32"
  proof -
    have "\<lfloor>p\<rfloor> < 2 ^ 32" using t(2) fl by simp
    then show ?thesis by (simp add: floor_less_iff)
  qed
  have a0: "0 \<le> a" using N rho0 by (simp add: a_def)
  have p_up: "p \<le> a * (1 + 1 / 2 ^ 53)"
    unfolding p_def a_def [symmetric] using a0 by (rule rnd_upper)
  have p_lo: "a * (1 - 1 / 2 ^ 53) \<le> p"
    unfolding p_def a_def [symmetric] using a0 by (rule rnd_lower)
  have a_lt: "a < 2 ^ 33"
    using p_lo p_lt by simp
  show rho_ne: "resample_ratio x r \<noteq> 0"
  proof
    assume "resample_ratio x r = 0"
    then have "p = 0" by (simp add: p_def \<rho>_def)
    with p_ge show False by simp
  qed
  then have rho: "0 < \<rho>" using rho0 by (simp add: \<rho>_def)
  have i32: "\<bar>int i\<bar> < 2 ^ 53"
  proof -
    have "real i < 2 ^ 32" using p_ge p_lt by simp
    then have "i < 2 ^ 32" by (metis of_nat_less_iff of_nat_numeral of_nat_power)
    then show ?thesis by simp
  qed
  have src: "src_index_of \<rho> i = rnd (real i / \<rho>)"
    using to_double_exact [OF i32] by (simp add: src_index_of_def fdiv_def)
  have q0: "0 \<le> real i / \<rho>" using rho by simp
  show "0 \<le> src_index_of (resample_ratio x r) i"
    unfolding \<rho>_def [symmetric] src using q0 by (rule rnd_nonneg)
  have "real i * (1 + 1 / 2 ^ 53) \<le> (a * (1 + 1 / 2 ^ 53) - 1) * (1 + 1 / 2 ^ 53)"
    using p_ge p_up by (intro mult_right_mono) simp_all
  also have "\<dots> < a"
    using a_lt a0 by (simp add: algebra_simps)
  finally have "real i * (1 + 1 / 2 ^ 53) < N * \<rho>" by (simp add: a_def)
  then have "real i / \<rho> * (1 + 1 / 2 ^ 53) < N"
    using rho by (simp add: field_simps)
  moreover have "rnd (real i / \<rho>) \<le> real i / \<rho> * (1 + 1 / 2 ^ 53)"
    using q0 by (rule rnd_upper)
  ultimately have "src_index_of \<rho> i < N" using src by simp
  then show "src_index_of (resample_ratio x r) i < real (unat (wd_num_samples x))"
    by (simp add: \<rho>_def N_def)
qed

lemma resample_index0:
  assumes m: "to_uint32 (fmul (to_double (uint (wd_num_samples x))) (resample_ratio x r)) = Inr m"
    and i: "i < unat m"
  shows "\<exists>index0. to_uint32 (of_int \<lfloor>src_index_of (resample_ratio x r) i\<rfloor>) = Inr index0
    \<and> unat index0 < unat (wd_num_samples x)"
proof -
  let ?q = "src_index_of (resample_ratio x r) i"
  let ?n = "unat (wd_num_samples x)"
  note b = src_index_below_num_samples [OF m i]
  have lo: "0 \<le> \<lfloor>?q\<rfloor>" using b(2) by simp
  have "?q < of_int (int ?n)" using b(3) by simp
  then have hi: "\<lfloor>?q\<rfloor> < int ?n" by (simp only: floor_less_iff)
  have "int ?n < 2 ^ 32"
    using unsigned_less [of "wd_num_samples x", where 'a = int] by simp
  then have hi32: "\<lfloor>?q\<rfloor> < 2 ^ 32" using hi by linarith
  let ?i0 = "word_of_int \<lfloor>?q\<rfloor> :: 32 word"
  have "to_uint32 (of_int \<lfloor>?q\<rfloor>) = Inr ?i0"
    using lo hi32 by (simp add: to_uint32_def)
  moreover have "int (unat ?i0) = \<lfloor>?q\<rfloor>"
    using lo hi32 by (simp add: uint_word_of_int take_bit_int_eq_self flip: uint_nat)
  then have "unat ?i0 < ?n" using hi by linarith
  ultimately show ?thesis by blast
qed

lemma index1_of_clamped:
  assumes "unat index0 = unat (wd_num_samples x) - 1" and "0 < unat (wd_num_samples x)"
  shows "index1_of x index0 = index0"
proof -
  have "unat index0 + 1 = unat (wd_num_samples x)" using assms by simp
  moreover have "unat (wd_num_samples x) < 2 ^ 32"
    using unsigned_less [of "wd_num_samples x", where 'a = nat] by simp
  ultimately have "unat (index0 + 1) = unat (wd_num_samples x)"
    by (simp add: unat_word_ariths)
  then show ?thesis
    by (simp add: index1_of_def word_less_nat_alt)
qed

lemma interpolate_in_bounds:
  "i0 < length chan \<Longrightarrow> i1 < length chan \<Longrightarrow> interpolate T chan i0 i1 f \<noteq> Inl OutOfBounds"
  by (simp add: interpolate_def to_ctype_def Let_def)

lemma resample_loop_in_bounds:
  assumes "\<forall>j < m. \<exists>index0. to_uint32 (of_int \<lfloor>src_index_of \<rho> j\<rfloor>) = Inr index0
      \<and> unat index0 < unat (wd_num_samples x)"
    and "unat (wd_num_samples x) \<le> length (channel1 x)"
    and "wd_num_channels x = 2 \<longrightarrow> unat (wd_num_samples x) \<le> length (channel2 x)"
  shows "resample_loop T x \<rho> m i ch1 ch2 \<noteq> Inl OutOfBounds"
  using assms
proof (induction T x \<rho> m i ch1 ch2 rule: resample_loop.induct)
  case (1 T x \<rho> m i ch1 ch2)
  show ?case
  proof (cases "i < m \<and> \<rho> \<noteq> 0")
    case False
    then show ?thesis by (subst resample_loop.simps) auto
  next
    case True
    then obtain index0 where idx: "to_uint32 (of_int \<lfloor>src_index_of \<rho> i\<rfloor>) = Inr index0"
      and lt: "unat index0 < unat (wd_num_samples x)"
      using "1.prems"(1) by blast
    let ?i1 = "index1_of x index0"
    let ?f = "fsub (src_index_of \<rho> i) (to_double (uint index0))"
    have lt1: "unat ?i1 < unat (wd_num_samples x)"
      using lt by (rule index1_of_bound)
    have a1: "interpolate T (channel1 x) (unat index0) (unat ?i1) ?f \<noteq> Inl OutOfBounds"
      using lt lt1 "1.prems"(2) by (intro interpolate_in_bounds) simp_all
    show ?thesis
    proof (cases "interpolate T (channel1 x) (unat index0) (unat ?i1) ?f")
      case (Inl e)
      with a1 have "e \<noteq> OutOfBounds" by simp
      with True idx Inl show ?thesis by (subst resample_loop.simps) simp
    next
      case (Inr v1)
      show ?thesis
      proof (cases "wd_num_channels x = 2")
        case mono: False
        have "resample_loop T x \<rho> m (Suc i) (ch1[i := v1]) ch2 \<noteq> Inl OutOfBounds"
          using "1.IH"(2) [OF _ _ refl idx refl refl Inr mono] True "1.prems" by simp
        with True idx Inr mono show ?thesis by (subst resample_loop.simps) simp
      next
        case stereo: True
        have a2: "interpolate T (channel2 x) (unat index0) (unat ?i1) ?f \<noteq> Inl OutOfBounds"
          using lt lt1 "1.prems"(3) stereo by (intro interpolate_in_bounds) simp_all
        show ?thesis
        proof (cases "interpolate T (channel2 x) (unat index0) (unat ?i1) ?f")
          case (Inl e)
          with a2 have "e \<noteq> OutOfBounds" by simp
          with True idx Inr stereo Inl show ?thesis by (subst resample_loop.simps) simp
        next
          case v2: (Inr v2)
          have "resample_loop T x \<rho> m (Suc i) (ch1[i := v1]) (ch2[i := v2]) \<noteq> Inl OutOfBounds"
            using "1.IH"(1) [OF _ _ refl idx refl refl Inr stereo v2] True "1.prems" by simp
          with True idx Inr stereo v2 show ?thesis by (subst resample_loop.simps) simp
        qed
      qed
    qed
  qed
qed

lemma resample_not_out_of_bounds:
  assumes "unat (wd_num_samples x) \<le> length (channel1 x)"
    and "wd_num_channels x = 2 \<longrightarrow> unat (wd_num_samples x) \<le> length (channel2 x)"
  shows "resample T x r \<noteq> Inl OutOfBounds"
proof (cases "wd_sample_rate x = 0")
  case True
  then show ?thesis by (simp add: resample_def)
next
  case False
  show ?thesis
  proof (cases "to_uint32 (fmul (to_double (uint (wd_num_samples x))) (resample_ratio x r))")
    case (Inl e)
    then have "e = CastOutOfRange" by (simp add: to_uint32_def split: if_splits)
    with False Inl show ?thesis by (simp add: resample_def)
  next
    case (Inr m)
    have "resample_loop T x (resample_ratio x r) (unat m) 0 ch1 ch2 \<noteq> Inl OutOfBounds"
      for ch1 ch2
      using resample_index0 [OF Inr] assms by (intro resample_loop_in_bounds) simp_all
    then show ?thesis
      using False Inr by (auto simp: resample_def Let_def split: sum.splits)
  qed
qed

section \<open>Parsing: the claims\<close>

text \<open>
  C2 as stated (a data chunk that declares more bytes than the stream still holds makes
  \<open>parse\<close> fail) does not hold. The stream below is the twelve-byte header, a 16-byte
  \<open>fmt\<close> chunk (PCM, mono, 8000 Hz, block align 2, 16 bits) and a \<open>data\<close> chunk that
  declares four bytes and holds two: \<open>read\<close> returns \<open>true\<close>, the buffer padded with zeros.
\<close>

theorem parse_truncated_data_counterexample:
  "parse [0x52, 0x49, 0x46, 0x46, 40, 0, 0, 0, 0x57, 0x41, 0x56, 0x45,
          0x66, 0x6D, 0x74, 0x20, 16, 0, 0, 0, 1, 0, 1, 0, 0x40, 0x1F, 0, 0, 0x80, 0x3E, 0, 0,
          2, 0, 16, 0,
          0x64, 0x61, 0x74, 0x61, 4, 0, 0, 0, 1, 2] =
   Inr \<lparr>chunk_size = 40, num_channels = 1, sample_rate = 8000, block_align = 2,
        bits_per_sample = 16, data_size = 4, num_samples = 2, raw_data = [1, 2, 0, 0]\<rparr>"
proof -
  have eq: "[0x52, 0x49, 0x46, 0x46, 40, 0, 0, 0, 0x57, 0x41, 0x56, 0x45,
          0x66, 0x6D, 0x74, 0x20, 16, 0, 0, 0, 1, 0, 1, 0, 0x40, 0x1F, 0, 0, 0x80, 0x3E, 0, 0,
          2, 0, 16, 0,
          0x64, 0x61, 0x74, 0x61, 4, 0, 0, 0, 1, 2] =
    riff_header 40 @ chunks [] @ chunk fmt_tag (fmt_body 1 1 8000 16000 2 16 @ [])
      @ chunks [] @ data_tag @ u32_bytes 4 @ [1, 2]"
    by (simp add: riff_header_def chunks_def chunk_def fmt_body_def RIFF_def WAVE_def
        fmt_tag_def data_tag_def le_bytes_eval)
  have "replicate 2 (0 :: byte) = [0, 0]"
    by (simp add: numeral_2_eq_2)
  then show ?thesis
    unfolding parse_def eq
    using read_fmt_then_data [of "[]" "[]" "[]" 40 1 1 8000 16000 2 16 4 "[1, 2]" WavFile_default]
    by (simp add: overwrite_def resize_def WavFile_default_def)
qed


text \<open>
  C2, amended: \<open>parse\<close> succeeds on every stream of this shape: a valid header; then any
  number of chunks (\<open>us\<close>) with a four-byte tag that is neither \<open>fmt\<close> nor \<open>data\<close> and a
  body of exactly the declared length; then one \<open>fmt\<close> chunk with a complete body, the 16
  bytes of the format fields and as many further bytes as it declares beyond 16, and a
  nonzero block align; then any number of further chunks (\<open>vs\<close>) tagged neither \<open>fmt\<close> nor
  \<open>data\<close>, bodies of the declared length; then, last in the stream, a \<open>data\<close> chunk that
  declares more bytes than are left. The container returned has the declared length as
  \<open>data_size\<close> and, as \<open>raw_data\<close>, the bytes that were there followed by zero bytes up to
  the declared length; \<open>chunk_size\<close> is that of the header, the format fields are those
  of the \<open>fmt\<close> chunk, and \<open>num_samples\<close> is \<open>data_size / block_align\<close>.
\<close>

theorem parse_truncated_data_zero_padded:
  assumes "list_all skippable us" and "list_all skippable vs"
    and "length extra + 16 < 2 ^ 32" and "ba \<noteq> 0" and "length body < unat n"
  shows "parse (riff_header cs @ chunks us
            @ chunk fmt_tag (fmt_body af nc sr br ba bps @ extra)
            @ chunks vs @ data_tag @ u32_bytes n @ body) =
    Inr \<lparr>chunk_size = cs, num_channels = nc, sample_rate = sr, block_align = ba,
       bits_per_sample = bps, data_size = n, num_samples = n div ucast ba,
       raw_data = body @ replicate (unat n - length body) 0\<rparr>"
  using assms read_fmt_then_data [OF assms(1-3), of cs af nc sr br ba bps n body WavFile_default]
  by (simp add: parse_def overwrite_def resize_def WavFile_default_def)

theorem parse_truncated_data_zero_padded_witness:
  "list_all skippable [([0x4C, 0x49, 0x53, 0x54], [7, 7])] \<and> list_all skippable []
   \<and> length ([] :: byte list) + 16 < 2 ^ 32 \<and> (4 :: 16 word) \<noteq> 0
   \<and> length [1, 2, 3 :: byte] < unat (8 :: 32 word)
   \<and> parse (riff_header 100 @ chunks [([0x4C, 0x49, 0x53, 0x54], [7, 7])]
            @ chunk fmt_tag (fmt_body 1 2 44100 176400 4 16 @ [])
            @ chunks [] @ data_tag @ u32_bytes 8 @ [1, 2, 3]) =
      Inr \<lparr>chunk_size = 100, num_channels = 2, sample_rate = 44100, block_align = 4,
         bits_per_sample = 16, data_size = 8, num_samples = 8 div ucast (4 :: 16 word),
         raw_data = [1, 2, 3] @ replicate (unat (8 :: 32 word) - length [1, 2, 3 :: byte]) 0\<rparr>"
proof -
  have h: "list_all skippable [([0x4C, 0x49, 0x53, 0x54], [7, 7])]" "list_all skippable []"
    "length ([] :: byte list) + 16 < 2 ^ 32" "(4 :: 16 word) \<noteq> 0"
    "length [1, 2, 3 :: byte] < unat (8 :: 32 word)"
    by (simp_all add: skippable_def fmt_tag_def data_tag_def)
  show ?thesis
    using h parse_truncated_data_zero_padded [OF h, of 100 1 2 44100 176400 16]
    by simp
qed

text \<open>
  C9: \<open>read\<close> divides \<open>data_size\<close> by \<open>block_align\<close> without looking at the divisor. On
  every stream with a \<open>fmt\<close> chunk that declares block align 0 and a \<open>data\<close> chunk, in
  either order and with other chunks before and between them, it reaches the division
  with divisor zero, whatever the object held before. In the first order the \<open>data\<close> chunk
  may be cut short or followed by anything.
\<close>

theorem read_block_align_zero_divides_by_zero:
  assumes "list_all skippable us" and "list_all skippable vs"
    and "length extra + 16 < 2 ^ 32" and "length body < 2 ^ 32"
  shows "read (Some (riff_header cs @ chunks us
            @ chunk fmt_tag (fmt_body af nc sr br 0 bps @ extra)
            @ chunks vs @ data_tag @ u32_bytes n @ rest)) wav = Inl DivisionByZero
    \<and> read (Some (riff_header cs @ chunks us @ chunk data_tag body @ chunks vs
            @ chunk fmt_tag (fmt_body af nc sr br 0 bps @ extra) @ rest)) wav
        = Inl DivisionByZero"
  using read_fmt_then_data [OF assms(1-3), of cs af nc sr br 0 bps n rest wav]
    read_data_then_fmt [OF assms, of cs af nc sr br 0 bps rest wav]
  by simp

theorem read_block_align_zero_divides_by_zero_witness:
  "list_all skippable [([0x4C, 0x49, 0x53, 0x54], [7, 7])] \<and> list_all skippable []
   \<and> length ([] :: byte list) + 16 < 2 ^ 32 \<and> length [1, 2, 3, 4 :: byte] < 2 ^ 32
   \<and> read (Some (riff_header 100 @ chunks [([0x4C, 0x49, 0x53, 0x54], [7, 7])]
            @ chunk fmt_tag (fmt_body 1 2 44100 176400 0 16 @ [])
            @ chunks [] @ data_tag @ u32_bytes 4 @ [1, 2, 3, 4])) WavFile_default
       = Inl DivisionByZero
   \<and> read (Some (riff_header 100 @ chunks [([0x4C, 0x49, 0x53, 0x54], [7, 7])]
            @ chunk data_tag [1, 2, 3, 4] @ chunks []
            @ chunk fmt_tag (fmt_body 1 2 44100 176400 0 16 @ []) @ [1, 2, 3, 4]))
         WavFile_default
       = Inl DivisionByZero"
proof -
  have h: "list_all skippable [([0x4C, 0x49, 0x53, 0x54], [7, 7])]" "list_all skippable []"
    "length ([] :: byte list) + 16 < 2 ^ 32" "length [1, 2, 3, 4 :: byte] < 2 ^ 32"
    by (simp_all add: skippable_def fmt_tag_def data_tag_def)
  show ?thesis
    using h read_block_align_zero_divides_by_zero [OF h, of 100 1 2 44100 176400 16 4
        "[1, 2, 3, 4]" WavFile_default]
    by simp
qed

text \<open>
  C8 as stated does not hold for a stream that has neither chunk: \<open>read\<close> looks for the
  missing \<open>fmt\<close> chunk first, so the twelve-byte header alone is refused with the
  message of the \<open>fmt\<close> chunk, not with that of the \<open>data\<close> chunk.
\<close>

theorem parse_missing_data_counterexample:
  "parse [0x52, 0x49, 0x46, 0x46, 4, 0, 0, 0, 0x57, 0x41, 0x56, 0x45] = Inl MissingFmtChunk
   \<and> parse [0x52, 0x49, 0x46, 0x46, 4, 0, 0, 0, 0x57, 0x41, 0x56, 0x45] \<noteq> Inl MissingDataChunk"
proof -
  have eq: "[0x52, 0x49, 0x46, 0x46, 4, 0, 0, 0, 0x57, 0x41, 0x56, 0x45] =
      riff_header 4 @ chunks [] @ []"
    by (simp add: riff_header_def chunks_def RIFF_def WAVE_def le_bytes_eval)
  show ?thesis
    unfolding parse_def eq
    using read_no_data [of "[]" "[]" 4 WavFile_default]
    by simp
qed

text \<open>
  C8, amended. First: on a stream that is a valid header, then any number of chunks
  (\<open>ks\<close>), each with a four-byte tag other than \<open>data\<close> and a body of exactly the declared
  length, every \<open>fmt\<close> chunk among them with a body of at least 16 bytes, and then fewer
  than four further bytes, \<open>parse\<close> fails and returns no container: with
  \<open>MissingDataChunk\<close> when a \<open>fmt\<close> chunk is among the chunks, with \<open>MissingFmtChunk\<close>
  when none is. Second, the order of the two chunks is not assumed: on a stream that is a
  valid header, any number of chunks (\<open>us\<close>) tagged neither \<open>fmt\<close> nor \<open>data\<close> with bodies
  of the declared length, one complete \<open>data\<close> chunk, any number of further chunks
  (\<open>vs\<close>) tagged neither \<open>fmt\<close> nor \<open>data\<close>, then one \<open>fmt\<close> chunk with a complete body
  of at least 16 bytes and a nonzero block align, and then anything, \<open>parse\<close> succeeds,
  with the body of the \<open>data\<close> chunk as \<open>raw_data\<close>.
\<close>

theorem parse_missing_data_and_chunk_order:
  assumes "list_all non_data_chunk ks" and "length tail < 4"
    and "list_all skippable us" and "list_all skippable vs"
    and "length extra + 16 < 2 ^ 32" and "length body < 2 ^ 32" and "ba \<noteq> 0"
  shows "parse (riff_header cs @ chunks ks @ tail) =
      Inl (if \<exists>c\<in>set ks. fst c = fmt_tag then MissingDataChunk else MissingFmtChunk)
    \<and> parse (riff_header cs @ chunks us @ chunk data_tag body @ chunks vs
            @ chunk fmt_tag (fmt_body af nc sr br ba bps @ extra) @ rest) =
      Inr \<lparr>chunk_size = cs, num_channels = nc, sample_rate = sr, block_align = ba,
         bits_per_sample = bps, data_size = of_nat (length body),
         num_samples = of_nat (length body) div ucast ba, raw_data = body\<rparr>"
  using read_no_data [OF assms(1,2), of cs WavFile_default] assms(7)
    read_data_then_fmt [OF assms(3-6), of cs af nc sr br ba bps rest WavFile_default]
  by (simp add: parse_def)

theorem parse_missing_data_and_chunk_order_witness:
  "list_all non_data_chunk [(fmt_tag, fmt_body 1 1 8000 16000 2 16)] \<and> length [9 :: byte] < 4
   \<and> list_all skippable [([0x4C, 0x49, 0x53, 0x54], [7, 7])] \<and> list_all skippable []
   \<and> length ([] :: byte list) + 16 < 2 ^ 32 \<and> length [1, 2, 3, 4 :: byte] < 2 ^ 32
   \<and> (2 :: 16 word) \<noteq> 0
   \<and> parse (riff_header 100 @ chunks [(fmt_tag, fmt_body 1 1 8000 16000 2 16)] @ [9]) =
      Inl (if \<exists>c\<in>set [(fmt_tag, fmt_body 1 1 8000 16000 2 16)]. fst c = fmt_tag
           then MissingDataChunk else MissingFmtChunk)
   \<and> parse (riff_header 100 @ chunks [([0x4C, 0x49, 0x53, 0x54], [7, 7])]
            @ chunk data_tag [1, 2, 3, 4] @ chunks []
            @ chunk fmt_tag (fmt_body 1 1 8000 16000 2 16 @ []) @ []) =
      Inr \<lparr>chunk_size = 100, num_channels = 1, sample_rate = 8000, block_align = 2,
         bits_per_sample = 16, data_size = of_nat (length [1, 2, 3, 4 :: byte]),
         num_samples = of_nat (length [1, 2, 3, 4 :: byte]) div ucast (2 :: 16 word),
         raw_data = [1, 2, 3, 4]\<rparr>"
proof -
  have h: "list_all non_data_chunk [(fmt_tag, fmt_body 1 1 8000 16000 2 16)]"
    "length [9 :: byte] < 4"
    "list_all skippable [([0x4C, 0x49, 0x53, 0x54], [7, 7])]" "list_all skippable []"
    "length ([] :: byte list) + 16 < 2 ^ 32" "length [1, 2, 3, 4 :: byte] < 2 ^ 32"
    "(2 :: 16 word) \<noteq> 0"
    by (simp_all add: skippable_def non_data_chunk_def fmt_tag_def data_tag_def)
  show ?thesis
    using h parse_missing_data_and_chunk_order [OF h, of 100 1 1 8000 16000 16 "[]"]
    by simp
qed

section \<open>Serialising: the claim\<close>

text \<open>
  C1: \<open>save\<close> writes the canonical header of 44 bytes and recomputes the byte rate and
  the block align from the channel count and the bit depth, but at offset 4 it writes the
  \<open>chunk_size\<close> the object holds; only \<open>toWavFile\<close> sets that field to
  \<open>36 + data_size\<close>. The stream below is a valid file of 58 bytes (RIFF size 50) with a
  \<open>LIST\<close> chunk of two bytes before the \<open>fmt\<close> chunk and four bytes of data. \<open>read\<close>
  accepts it, and \<open>save\<close> on the object read writes a file of 48 bytes whose size field
  still says 50, where \<open>36 + data_size\<close> is 40.
\<close>

theorem save_writes_stored_chunk_size:
  "parse [0x52, 0x49, 0x46, 0x46, 50, 0, 0, 0, 0x57, 0x41, 0x56, 0x45,
          0x4C, 0x49, 0x53, 0x54, 2, 0, 0, 0, 7, 7,
          0x66, 0x6D, 0x74, 0x20, 16, 0, 0, 0, 1, 0, 1, 0, 0x40, 0x1F, 0, 0, 0x80, 0x3E, 0, 0,
          2, 0, 16, 0,
          0x64, 0x61, 0x74, 0x61, 4, 0, 0, 0, 1, 2, 3, 4] =
     Inr \<lparr>chunk_size = 50, num_channels = 1, sample_rate = 8000, block_align = 2,
          bits_per_sample = 16, data_size = 4, num_samples = 2, raw_data = [1, 2, 3, 4]\<rparr>
   \<and> save True \<lparr>chunk_size = 50, num_channels = 1, sample_rate = 8000, block_align = 2,
          bits_per_sample = 16, data_size = 4, num_samples = 2, raw_data = [1, 2, 3, 4]\<rparr> =
     Inr [0x52, 0x49, 0x46, 0x46, 50, 0, 0, 0, 0x57, 0x41, 0x56, 0x45,
          0x66, 0x6D, 0x74, 0x20, 16, 0, 0, 0, 1, 0, 1, 0, 0x40, 0x1F, 0, 0, 0x80, 0x3E, 0, 0,
          2, 0, 16, 0,
          0x64, 0x61, 0x74, 0x61, 4, 0, 0, 0, 1, 2, 3, 4]
   \<and> u32_bytes (36 + 4) = [40, 0, 0, 0]"
proof -
  have eq: "[0x52, 0x49, 0x46, 0x46, 50, 0, 0, 0, 0x57, 0x41, 0x56, 0x45,
          0x4C, 0x49, 0x53, 0x54, 2, 0, 0, 0, 7, 7,
          0x66, 0x6D, 0x74, 0x20, 16, 0, 0, 0, 1, 0, 1, 0, 0x40, 0x1F, 0, 0, 0x80, 0x3E, 0, 0,
          2, 0, 16, 0,
          0x64, 0x61, 0x74, 0x61, 4, 0, 0, 0, 1, 2, 3, 4] =
    riff_header 50 @ chunks [([0x4C, 0x49, 0x53, 0x54], [7, 7])]
      @ chunk fmt_tag (fmt_body 1 1 8000 16000 2 16 @ [])
      @ chunks [] @ data_tag @ u32_bytes 4 @ [1, 2, 3, 4]"
    by (simp add: riff_header_def chunks_def chunk_def fmt_body_def RIFF_def WAVE_def
        fmt_tag_def data_tag_def le_bytes_eval)
  have sk: "list_all skippable [([0x4C, 0x49, 0x53, 0x54], [7, 7])]"
    by (simp add: skippable_def fmt_tag_def data_tag_def)
  have 1: "parse [0x52, 0x49, 0x46, 0x46, 50, 0, 0, 0, 0x57, 0x41, 0x56, 0x45,
          0x4C, 0x49, 0x53, 0x54, 2, 0, 0, 0, 7, 7,
          0x66, 0x6D, 0x74, 0x20, 16, 0, 0, 0, 1, 0, 1, 0, 0x40, 0x1F, 0, 0, 0x80, 0x3E, 0, 0,
          2, 0, 16, 0,
          0x64, 0x61, 0x74, 0x61, 4, 0, 0, 0, 1, 2, 3, 4] =
     Inr \<lparr>chunk_size = 50, num_channels = 1, sample_rate = 8000, block_align = 2,
          bits_per_sample = 16, data_size = 4, num_samples = 2, raw_data = [1, 2, 3, 4]\<rparr>"
    unfolding parse_def eq
    using read_fmt_then_data [OF sk, of "[]" "[]" 50 1 1 8000 16000 2 16 4 "[1, 2, 3, 4]"
        WavFile_default]
    by (simp add: overwrite_def resize_def WavFile_default_def)
  have 2: "save True \<lparr>chunk_size = 50, num_channels = 1, sample_rate = 8000, block_align = 2,
          bits_per_sample = 16, data_size = 4, num_samples = 2, raw_data = [1, 2, 3, 4]\<rparr> =
     Inr [0x52, 0x49, 0x46, 0x46, 50, 0, 0, 0, 0x57, 0x41, 0x56, 0x45,
          0x66, 0x6D, 0x74, 0x20, 16, 0, 0, 0, 1, 0, 1, 0, 0x40, 0x1F, 0, 0, 0x80, 0x3E, 0, 0,
          2, 0, 16, 0,
          0x64, 0x61, 0x74, 0x61, 4, 0, 0, 0, 1, 2, 3, 4]"
    by (simp add: save_def mem_read_def RIFF_def WAVE_def fmt_tag_def data_tag_def le_bytes_eval)
  have 3: "u32_bytes (36 + 4) = [40, 0, 0, 0]"
    by (simp add: le_bytes_eval)
  from 1 2 3 show ?thesis by (intro conjI)
qed

section \<open>Splitting and joining: the claims\<close>

text \<open>
  C3 as stated (a bit depth that differs from the width of \<open>T\<close> is a hard construction
  error and nothing is handed on) does not hold: the constructor prints its message and
  returns. For a 16-bit mono container of four frames and \<open>T = int32_t\<close> the caller gets
  an object that says four samples and holds none.
\<close>

theorem WavData_mismatch_counterexample:
  "WavData_ctor Int32
     \<lparr>chunk_size = 44, num_channels = 1, sample_rate = 8000, block_align = 2,
      bits_per_sample = 16, data_size = 8, num_samples = 4,
      raw_data = [0, 0, 0xE8, 3, 0x18, 0xFC, 0xFF, 0x7F]\<rparr> =
   Inr ([BitDepthMismatch 16 32],
        \<lparr>wd_sample_rate = 8000, wd_num_channels = 1, wd_bits_per_sample = 16,
         wd_num_samples = 4, channel1 = [], channel2 = []\<rparr>)"
  by (simp add: WavData_ctor_def)

text \<open>
  C3, amended: when \<open>bits_per_sample\<close> differs from the width of \<open>T\<close>, the constructor
  reports the mismatch on the error stream and returns normally; the object has the
  sample rate, channel count, bit depth and sample count of the container, and both
  channels empty.
\<close>

theorem WavData_mismatch_warns_and_returns_empty:
  assumes "unat (bits_per_sample c) \<noteq> sizeof T * 8"
  shows "WavData_ctor T c =
    Inr ([BitDepthMismatch (bits_per_sample c) (sizeof T * 8)],
         \<lparr>wd_sample_rate = sample_rate c, wd_num_channels = num_channels c,
          wd_bits_per_sample = bits_per_sample c, wd_num_samples = num_samples c,
          channel1 = [], channel2 = []\<rparr>)"
  using assms by (simp add: WavData_ctor_def)

theorem WavData_mismatch_warns_and_returns_empty_witness:
  "unat (bits_per_sample
      \<lparr>chunk_size = 40, num_channels = 2, sample_rate = 44100, block_align = 2,
       bits_per_sample = 8, data_size = 4, num_samples = 2, raw_data = [1, 2, 3, 4]\<rparr>)
     \<noteq> sizeof Int16 * 8
   \<and> WavData_ctor Int16
      \<lparr>chunk_size = 40, num_channels = 2, sample_rate = 44100, block_align = 2,
       bits_per_sample = 8, data_size = 4, num_samples = 2, raw_data = [1, 2, 3, 4]\<rparr> =
     Inr ([BitDepthMismatch 8 16],
          \<lparr>wd_sample_rate = 44100, wd_num_channels = 2, wd_bits_per_sample = 8,
           wd_num_samples = 2, channel1 = [], channel2 = []\<rparr>)"
  using WavData_mismatch_warns_and_returns_empty [of
      "\<lparr>chunk_size = 40, num_channels = 2, sample_rate = 44100, block_align = 2,
       bits_per_sample = 8, data_size = 4, num_samples = 2, raw_data = [1, 2, 3, 4]\<rparr>" Int16]
  by simp

text \<open>
  C4: for a container in canonical layout (one or two channels, the bit depth of \<open>T\<close>,
  \<open>block_align = num_channels * sizeof(T)\<close>, \<open>data_size = num_samples * block_align\<close>,
  and a buffer of \<open>data_size\<close> bytes), the constructor succeeds without a message and
  \<open>toWavFile\<close> on its result gives back the same \<open>raw_data\<close>, \<open>block_align\<close> and
  \<open>data_size\<close>.
\<close>

theorem join_split_inverse:
  assumes "num_channels c = 1 \<or> num_channels c = 2"
    and "unat (bits_per_sample c) = sizeof T * 8"
    and "unat (block_align c) = unat (num_channels c) * sizeof T"
    and "unat (data_size c) = unat (num_samples c) * unat (block_align c)"
    and "length (raw_data c) = unat (data_size c)"
  shows "\<exists>d c'. WavData_ctor T c = Inr ([], d) \<and> toWavFile T d = Inr c'
    \<and> raw_data c' = raw_data c \<and> block_align c' = block_align c
    \<and> data_size c' = data_size c"
proof -
  obtain d where "WavData_ctor T c = Inr ([], d)"
    and "toWavFile T d = Inr \<lparr>chunk_size = 36 + data_size c, num_channels = num_channels c,
      sample_rate = sample_rate c, block_align = block_align c,
      bits_per_sample = bits_per_sample c, data_size = data_size c,
      num_samples = num_samples c, raw_data = raw_data c\<rparr>"
    using canonical_round_trip [OF assms] by blast
  then show ?thesis by force
qed

theorem join_split_inverse_witness:
  "(num_channels \<lparr>chunk_size = 44, num_channels = 2, sample_rate = 8000, block_align = 4,
       bits_per_sample = 16, data_size = 8, num_samples = 2,
       raw_data = [0, 0, 0xE8, 3, 0x18, 0xFC, 0xFF, 0x7F]\<rparr> = 2)
   \<and> (\<exists>d c'. WavData_ctor Int16
        \<lparr>chunk_size = 44, num_channels = 2, sample_rate = 8000, block_align = 4,
         bits_per_sample = 16, data_size = 8, num_samples = 2,
         raw_data = [0, 0, 0xE8, 3, 0x18, 0xFC, 0xFF, 0x7F]\<rparr> = Inr ([], d)
      \<and> toWavFile Int16 d = Inr c'
      \<and> raw_data c' = [0, 0, 0xE8, 3, 0x18, 0xFC, 0xFF, 0x7F]
      \<and> block_align c' = 4 \<and> data_size c' = 8)"
  using join_split_inverse [of
      "\<lparr>chunk_size = 44, num_channels = 2, sample_rate = 8000, block_align = 4,
       bits_per_sample = 16, data_size = 8, num_samples = 2,
       raw_data = [0, 0, 0xE8, 3, 0x18, 0xFC, 0xFF, 0x7F]\<rparr>" Int16]
  by simp

text \<open>
  C10: the constructor checks the bit depth and nothing else. Its reads stay inside
  \<open>raw_data\<close> when \<open>block_align\<close> is at least \<open>num_channels * sizeof(T)\<close> and the buffer
  holds \<open>num_samples * block_align\<close> bytes (container \<open>c\<close>). For a mono or stereo
  container \<open>b\<close> with at least one frame, a buffer of exactly
  \<open>num_samples * block_align\<close> bytes and a \<open>block_align\<close> smaller than
  \<open>num_channels * sizeof(T)\<close>, the reads of the last frame end beyond the buffer and the
  construction is an out-of-bounds read.
\<close>

theorem split_reads_rely_on_block_align:
  assumes "unat (bits_per_sample c) = sizeof T * 8"
    and "num_channels c \<noteq> 0"
    and "unat (num_channels c) * sizeof T \<le> unat (block_align c)"
    and "unat (num_samples c) * unat (block_align c) \<le> unat (data_size c)"
    and "unat (data_size c) \<le> length (raw_data c)"
    and "unat (bits_per_sample b) = sizeof T * 8"
    and "num_channels b = 1 \<or> num_channels b = 2"
    and "0 < unat (num_samples b)"
    and "unat (block_align b) < unat (num_channels b) * sizeof T"
    and "unat (data_size b) = unat (num_samples b) * unat (block_align b)"
    and "length (raw_data b) = unat (data_size b)"
  shows "(\<exists>d. WavData_ctor T c = Inr ([], d))
    \<and> WavData_ctor T b = Inl OutOfBounds
    \<and> length (raw_data b) < frame_end T b (unat (num_samples b) - 1)"
proof -
  have c_ok: "\<forall>j < unat (num_samples c). frame_end T c j \<le> length (raw_data c)"
  proof (intro allI impI)
    fix j assume j: "j < unat (num_samples c)"
    let ?k = "unat (block_align c)"
    have le: "Suc j * ?k \<le> unat (num_samples c) * ?k"
      using j by (intro mult_le_mono1) simp
    then have "j * ?k \<le> unat (data_size c)" using assms(4) by simp
    then have "j * ?k < 2 ^ 32"
      using unsigned_less [of "data_size c", where 'a = nat] by simp
    then have off: "frame_offset c j = j * ?k"
      unfolding frame_offset_def by (rule word32_offset)
    have "unat (num_channels c) \<noteq> 0"
      using assms(2) by (simp add: unat_eq_0)
    then have "sizeof T \<le> unat (num_channels c) * sizeof T" by simp
    then have "sizeof T \<le> ?k" using assms(3) by linarith
    moreover have "2 * sizeof T \<le> ?k" if "num_channels c = 2"
      using assms(3) that by simp
    ultimately have "(if num_channels c = 2 then 2 * sizeof T else sizeof T) \<le> ?k"
      by simp
    then have "frame_end T c j \<le> Suc j * ?k"
      by (simp add: frame_end_def off)
    with le assms(4,5) show "frame_end T c j \<le> length (raw_data c)" by linarith
  qed
  have 1: "\<exists>d. WavData_ctor T c = Inr ([], d)"
    using WavData_ctor_in_bounds [OF assms(1) c_ok] by blast
  let ?n = "unat (num_samples b)"
  let ?k = "unat (block_align b)"
  have "(?n - 1) * ?k \<le> ?n * ?k" by (intro mult_le_mono1) simp
  moreover have "?n * ?k < 2 ^ 32"
    using unsigned_less [of "data_size b", where 'a = nat] assms(10) by simp
  ultimately have "(?n - 1) * ?k < 2 ^ 32" by linarith
  then have off: "frame_offset b (?n - 1) = (?n - 1) * ?k"
    unfolding frame_offset_def by (rule word32_offset)
  have "?k < (if num_channels b = 2 then 2 * sizeof T else sizeof T)"
    using assms(7,9) by auto
  moreover have "(?n - 1) * ?k + ?k = ?n * ?k"
    using assms(8) by (cases ?n) simp_all
  moreover have "frame_end T b (?n - 1) =
      (?n - 1) * ?k + (if num_channels b = 2 then 2 * sizeof T else sizeof T)"
    by (simp only: frame_end_def off)
  ultimately have 3: "length (raw_data b) < frame_end T b (?n - 1)"
    using assms(10,11) by linarith
  have 2: "WavData_ctor T b = Inl OutOfBounds"
    using assms(8) 3 by (intro WavData_ctor_out_of_bounds [OF assms(6), of "?n - 1"]) simp_all
  from 1 2 3 show ?thesis by blast
qed

theorem split_reads_rely_on_block_align_witness:
  "unat (bits_per_sample
      \<lparr>chunk_size = 44, num_channels = 2, sample_rate = 8000, block_align = 4,
       bits_per_sample = 16, data_size = 8, num_samples = 2,
       raw_data = [0, 0, 0xE8, 3, 0x18, 0xFC, 0xFF, 0x7F]\<rparr>) = sizeof Int16 * 8
   \<and> unat (block_align
      \<lparr>chunk_size = 44, num_channels = 2, sample_rate = 8000, block_align = 3,
       bits_per_sample = 16, data_size = 6, num_samples = 2,
       raw_data = [0, 0, 0xE8, 3, 0x18, 0xFC]\<rparr>) < unat (2 :: 16 word) * sizeof Int16
   \<and> (\<exists>d. WavData_ctor Int16
      \<lparr>chunk_size = 44, num_channels = 2, sample_rate = 8000, block_align = 4,
       bits_per_sample = 16, data_size = 8, num_samples = 2,
       raw_data = [0, 0, 0xE8, 3, 0x18, 0xFC, 0xFF, 0x7F]\<rparr> = Inr ([], d))
   \<and> WavData_ctor Int16
      \<lparr>chunk_size = 44, num_channels = 2, sample_rate = 8000, block_align = 3,
       bits_per_sample = 16, data_size = 6, num_samples = 2,
       raw_data = [0, 0, 0xE8, 3, 0x18, 0xFC]\<rparr> = Inl OutOfBounds
   \<and> length [0, 0, 0xE8, 3, 0x18, 0xFC :: byte] < frame_end Int16
      \<lparr>chunk_size = 44, num_channels = 2, sample_rate = 8000, block_align = 3,
       bits_per_sample = 16, data_size = 6, num_samples = 2,
       raw_data = [0, 0, 0xE8, 3, 0x18, 0xFC]\<rparr> (unat (2 :: 32 word) - 1)"
  using split_reads_rely_on_block_align [of
      "\<lparr>chunk_size = 44, num_channels = 2, sample_rate = 8000, block_align = 4,
       bits_per_sample = 16, data_size = 8, num_samples = 2,
       raw_data = [0, 0, 0xE8, 3, 0x18, 0xFC, 0xFF, 0x7F]\<rparr>" Int16
      "\<lparr>chunk_size = 44, num_channels = 2, sample_rate = 8000, block_align = 3,
       bits_per_sample = 16, data_size = 6, num_samples = 2,
       raw_data = [0, 0, 0xE8, 3, 0x18, 0xFC]\<rparr>"]
  by simp

section \<open>Requantizing: the claim\<close>

text \<open>
  C7 as stated (every pair of fixed-width integer types of equal signedness with \<open>To\<close>
  the wider) does not hold for a target of 64 bits. For \<open>From = int32_t\<close> and
  \<open>To = int64_t\<close> the greatest value of \<open>To\<close> is not a \<open>double\<close>: \<open>toMax\<close> is \<open>2 ^ 63\<close>, the
  result for the greatest value of \<open>From\<close> is \<open>2 ^ 63\<close>, and its conversion to \<open>int64_t\<close> is
  undefined, not the greatest value of \<open>To\<close>.
\<close>

theorem requantize_range_law_counterexample:
  "is_signed Int32 = is_signed Int64 \<and> sizeof Int32 < sizeof Int64
   \<and> numeric_max Int32 = 2147483647 \<and> numeric_max Int64 = 9223372036854775807
   \<and> convertSample Int32 Int64 2147483647 = Inl CastOutOfRange"
  by code_simp

text \<open>
  C7, amended: for every two integer types of at most 32 bits, and so for every pair of
  equal signedness with \<open>To\<close> the wider and of at most 32 bits, \<open>convertSample\<close> maps the
  least value of \<open>From\<close> to the least value of \<open>To\<close> and the greatest to the greatest: the
  normalised value is exactly 0 or 1. Hence \<open>reencode\<close>, which converts every sample of a
  channel set whose channels hold \<open>num_samples\<close> values of \<open>From\<close> without an undefined
  conversion, has the least value of \<open>To\<close> wherever its input has the least value of
  \<open>From\<close>, and the greatest wherever the input has the greatest, on both channels.
\<close>

theorem requantize_range_law:
  assumes "sizeof From \<le> 4" and "sizeof To \<le> 4"
    and "length (channel1 d) = unat (wd_num_samples d)"
    and "wd_num_channels d = 2 \<longrightarrow> length (channel2 d) = unat (wd_num_samples d)"
    and "\<forall>s\<in>set (channel1 d). in_range From s"
    and "wd_num_channels d = 2 \<longrightarrow> (\<forall>s\<in>set (channel2 d). in_range From s)"
  shows "convertSample From To (numeric_min From) = Inr (numeric_min To)
    \<and> convertSample From To (numeric_max From) = Inr (numeric_max To)
    \<and> (\<exists>out. reencode From To d = Inr out
        \<and> (\<forall>i < unat (wd_num_samples d).
              (channel1 d ! i = numeric_min From \<longrightarrow> channel1 out ! i = numeric_min To)
            \<and> (channel1 d ! i = numeric_max From \<longrightarrow> channel1 out ! i = numeric_max To)
            \<and> (wd_num_channels d = 2 \<longrightarrow>
                 (channel2 d ! i = numeric_min From \<longrightarrow> channel2 out ! i = numeric_min To)
               \<and> (channel2 d ! i = numeric_max From \<longrightarrow> channel2 out ! i = numeric_max To))))"
proof -
  note mn = convertSample_min [OF assms(1,2)] and mx = convertSample_max [OF assms(1,2)]
  obtain out where out: "reencode From To d = Inr out"
    "\<forall>i < unat (wd_num_samples d). convertSample From To (channel1 d ! i) = Inr (channel1 out ! i)"
    "wd_num_channels d = 2 \<longrightarrow>
      (\<forall>i < unat (wd_num_samples d).
         convertSample From To (channel2 d ! i) = Inr (channel2 out ! i))"
    using reencode_32 [OF assms] by blast
  have "\<forall>i < unat (wd_num_samples d).
      (channel1 d ! i = numeric_min From \<longrightarrow> channel1 out ! i = numeric_min To)
    \<and> (channel1 d ! i = numeric_max From \<longrightarrow> channel1 out ! i = numeric_max To)
    \<and> (wd_num_channels d = 2 \<longrightarrow>
         (channel2 d ! i = numeric_min From \<longrightarrow> channel2 out ! i = numeric_min To)
       \<and> (channel2 d ! i = numeric_max From \<longrightarrow> channel2 out ! i = numeric_max To))"
    using out(2,3) mn mx by (metis sum.inject(2))
  with out(1) mn mx show ?thesis by blast
qed

theorem requantize_range_law_witness:
  "sizeof Int16 \<le> 4 \<and> sizeof Int32 \<le> 4 \<and> is_signed Int16 = is_signed Int32
   \<and> sizeof Int16 < sizeof Int32
   \<and> list_all (in_range Int16) [- 32768, 0, 32767]
   \<and> convertSample Int16 Int32 (- 32768) = Inr (- 2147483648)
   \<and> convertSample Int16 Int32 32767 = Inr 2147483647
   \<and> (\<exists>out. reencode Int16 Int32
         \<lparr>wd_sample_rate = 8000, wd_num_channels = 1, wd_bits_per_sample = 16,
          wd_num_samples = 3, channel1 = [- 32768, 0, 32767], channel2 = []\<rparr> = Inr out
        \<and> channel1 out ! 0 = - 2147483648 \<and> channel1 out ! 2 = 2147483647)"
proof -
  let ?d = "\<lparr>wd_sample_rate = 8000, wd_num_channels = 1, wd_bits_per_sample = 16,
          wd_num_samples = 3, channel1 = [- 32768, 0, 32767], channel2 = []\<rparr>"
  have r: "\<forall>s\<in>set (channel1 ?d). in_range Int16 s"
    by (simp add: in_range_def numeric_min_def numeric_max_def)
  have h: "sizeof Int16 \<le> 4" "sizeof Int32 \<le> 4"
    "length (channel1 ?d) = unat (wd_num_samples ?d)"
    "wd_num_channels ?d = 2 \<longrightarrow> length (channel2 ?d) = unat (wd_num_samples ?d)"
    by simp_all
  have h6: "wd_num_channels ?d = 2 \<longrightarrow> (\<forall>s\<in>set (channel2 ?d). in_range Int16 s)"
    by simp
  obtain out where out: "reencode Int16 Int32 ?d = Inr out"
    and law: "\<forall>i < unat (wd_num_samples ?d).
      (channel1 ?d ! i = numeric_min Int16 \<longrightarrow> channel1 out ! i = numeric_min Int32)
    \<and> (channel1 ?d ! i = numeric_max Int16 \<longrightarrow> channel1 out ! i = numeric_max Int32)
    \<and> (wd_num_channels ?d = 2 \<longrightarrow>
         (channel2 ?d ! i = numeric_min Int16 \<longrightarrow> channel2 out ! i = numeric_min Int32)
       \<and> (channel2 ?d ! i = numeric_max Int16 \<longrightarrow> channel2 out ! i = numeric_max Int32))"
    using requantize_range_law [OF h r h6] by blast
  have "channel1 out ! 0 = - 2147483648"
    using law [rule_format, of 0] by (simp add: numeric_min_def)
  moreover have "channel1 out ! 2 = 2147483647"
    using law [rule_format, of 2] by (simp add: numeric_max_def)
  moreover have "convertSample Int16 Int32 (- 32768) = Inr (- 2147483648)"
    "convertSample Int16 Int32 32767 = Inr 2147483647"
    using requantize_range_law [OF h r h6] by (simp_all add: numeric_min_def numeric_max_def)
  ultimately show ?thesis
    using out r by (simp add: in_range_def numeric_min_def numeric_max_def)
qed

section \<open>Resampling: the claims\<close>

text \<open>
  C5 as stated (every sample type \<open>T\<close>) does not hold for a type of 64 bits, whose values
  are not all \<open>double\<close>s. For \<open>T = int64_t\<close>, one channel and the one sample
  \<open>2 ^ 53 + 1\<close>, resampling to the same rate returns the sample \<open>2 ^ 53\<close>: the conversion
  of the sample to \<open>double\<close> rounds.
\<close>

theorem resample_identity_counterexample:
  "wd_sample_rate \<lparr>wd_sample_rate = 8000, wd_num_channels = 1, wd_bits_per_sample = 64,
       wd_num_samples = 1, channel1 = [9007199254740993], channel2 = []\<rparr> \<noteq> 0
   \<and> in_range Int64 9007199254740993
   \<and> resample Int64
        \<lparr>wd_sample_rate = 8000, wd_num_channels = 1, wd_bits_per_sample = 64,
         wd_num_samples = 1, channel1 = [9007199254740993], channel2 = []\<rparr> 8000 =
      Inr \<lparr>wd_sample_rate = 8000, wd_num_channels = 1, wd_bits_per_sample = 64,
           wd_num_samples = 1, channel1 = [9007199254740992], channel2 = []\<rparr>"
  by code_simp

text \<open>
  C5, amended: for every sample type \<open>T\<close> of at most 32 bits, resampling a channel set
  whose channels hold \<open>num_samples\<close> values of \<open>T\<close> to its own nonzero rate returns the
  channel set itself: the ratio is exactly 1, every \<open>frac\<close> is 0, the sample count and
  every sample of either channel are those of the input.
\<close>

theorem resample_identity:
  assumes "wd_sample_rate x \<noteq> 0" and "sizeof T \<le> 4"
    and "length (channel1 x) = unat (wd_num_samples x)"
    and "wd_num_channels x = 2 \<longrightarrow> length (channel2 x) = unat (wd_num_samples x)"
    and "\<forall>s\<in>set (channel1 x). in_range T s"
    and "wd_num_channels x = 2 \<longrightarrow> (\<forall>s\<in>set (channel2 x). in_range T s)"
  shows "\<exists>y. resample T x (wd_sample_rate x) = Inr y
    \<and> wd_num_samples y = wd_num_samples x
    \<and> (\<forall>i < unat (wd_num_samples x). channel1 y ! i = channel1 x ! i)
    \<and> (wd_num_channels x = 2 \<longrightarrow>
         (\<forall>i < unat (wd_num_samples x). channel2 y ! i = channel2 x ! i))
    \<and> y = x"
  using resample_same_rate [OF assms] by simp

theorem resample_identity_witness:
  "wd_sample_rate \<lparr>wd_sample_rate = 8000, wd_num_channels = 2, wd_bits_per_sample = 16,
       wd_num_samples = 2, channel1 = [0, - 1000], channel2 = [1000, 32767]\<rparr> \<noteq> 0
   \<and> sizeof Int16 \<le> 4
   \<and> list_all (in_range Int16) [0, - 1000, 1000, 32767]
   \<and> resample Int16
        \<lparr>wd_sample_rate = 8000, wd_num_channels = 2, wd_bits_per_sample = 16,
         wd_num_samples = 2, channel1 = [0, - 1000], channel2 = [1000, 32767]\<rparr> 8000 =
      Inr \<lparr>wd_sample_rate = 8000, wd_num_channels = 2, wd_bits_per_sample = 16,
           wd_num_samples = 2, channel1 = [0, - 1000], channel2 = [1000, 32767]\<rparr>"
proof -
  let ?x = "\<lparr>wd_sample_rate = 8000, wd_num_channels = 2, wd_bits_per_sample = 16,
       wd_num_samples = 2, channel1 = [0, - 1000], channel2 = [1000, 32767]\<rparr>"
  have r: "list_all (in_range Int16) [0, - 1000, 1000, 32767]"
    by (simp add: in_range_def numeric_min_def numeric_max_def)
  have h: "wd_sample_rate ?x \<noteq> 0" "sizeof Int16 \<le> 4"
    "length (channel1 ?x) = unat (wd_num_samples ?x)"
    "wd_num_channels ?x = 2 \<longrightarrow> length (channel2 ?x) = unat (wd_num_samples ?x)"
    "\<forall>s\<in>set (channel1 ?x). in_range Int16 s"
    "wd_num_channels ?x = 2 \<longrightarrow> (\<forall>s\<in>set (channel2 ?x). in_range Int16 s)"
    using r by simp_all
  show ?thesis
    using resample_identity [OF h] r by simp
qed

text \<open>
  C6: whatever the target rate, \<open>resample\<close> never indexes a channel at or beyond
  \<open>num_samples\<close>. When the conversion of the new sample count to \<open>uint32_t\<close> is defined,
  then for every output index the conversion of the floor of the source position is
  defined too, \<open>index0\<close> and \<open>index1\<close> are at most \<open>num_samples - 1\<close>, and \<open>index1\<close> is
  \<open>index0\<close> when \<open>index0\<close> is the last source index; and \<open>resample\<close> on a channel set whose
  channels hold \<open>num_samples\<close> values never reads out of bounds (when the conversion of
  the new sample count is undefined, it reads nothing).
\<close>

theorem resample_indices_in_bounds:
  assumes "wd_sample_rate x \<noteq> 0" and "1 \<le> unat (wd_num_samples x)"
    and "to_uint32 (fmul (to_double (uint (wd_num_samples x))) (resample_ratio x r))
      = Inr newNumSamples"
    and "i < unat newNumSamples"
    and "unat (wd_num_samples x) \<le> length (channel1 x)"
    and "wd_num_channels x = 2 \<longrightarrow> unat (wd_num_samples x) \<le> length (channel2 x)"
  shows "(\<exists>index0. to_uint32 (of_int \<lfloor>src_index_of (resample_ratio x r) i\<rfloor>) = Inr index0
      \<and> unat index0 \<le> unat (wd_num_samples x) - 1
      \<and> unat (index1_of x index0) \<le> unat (wd_num_samples x) - 1
      \<and> (unat index0 = unat (wd_num_samples x) - 1 \<longrightarrow> index1_of x index0 = index0))
    \<and> resample T x r \<noteq> Inl OutOfBounds"
proof -
  obtain index0 where idx: "to_uint32 (of_int \<lfloor>src_index_of (resample_ratio x r) i\<rfloor>) = Inr index0"
    and lt: "unat index0 < unat (wd_num_samples x)"
    using resample_index0 [OF assms(3,4)] by blast
  have lt1: "unat (index1_of x index0) < unat (wd_num_samples x)"
    using lt by (rule index1_of_bound)
  have "unat index0 \<le> unat (wd_num_samples x) - 1" using lt by linarith
  moreover have "unat (index1_of x index0) \<le> unat (wd_num_samples x) - 1"
    using lt1 by linarith
  moreover have "unat index0 = unat (wd_num_samples x) - 1 \<longrightarrow> index1_of x index0 = index0"
    using index1_of_clamped [of index0 x] assms(2) by simp
  ultimately have "unat index0 \<le> unat (wd_num_samples x) - 1
      \<and> unat (index1_of x index0) \<le> unat (wd_num_samples x) - 1
      \<and> (unat index0 = unat (wd_num_samples x) - 1 \<longrightarrow> index1_of x index0 = index0)"
    by blast
  with idx resample_not_out_of_bounds [OF assms(5,6), of T r] show ?thesis by blast
qed

theorem resample_indices_in_bounds_witness:
  "to_uint32 (fmul (to_double (uint (4 :: 32 word)))
      (resample_ratio \<lparr>wd_sample_rate = 8000, wd_num_channels = 1, wd_bits_per_sample = 16,
         wd_num_samples = 4, channel1 = [0, 1000, - 1000, 32767], channel2 = []\<rparr> 12000))
     = Inr 6
   \<and> (\<exists>index0. to_uint32 (of_int \<lfloor>src_index_of
        (resample_ratio \<lparr>wd_sample_rate = 8000, wd_num_channels = 1, wd_bits_per_sample = 16,
           wd_num_samples = 4, channel1 = [0, 1000, - 1000, 32767], channel2 = []\<rparr> 12000)
        5\<rfloor>) = Inr index0
      \<and> unat index0 \<le> 3
      \<and> unat (index1_of \<lparr>wd_sample_rate = 8000, wd_num_channels = 1, wd_bits_per_sample = 16,
           wd_num_samples = 4, channel1 = [0, 1000, - 1000, 32767], channel2 = []\<rparr> index0) \<le> 3)
   \<and> resample Int16 \<lparr>wd_sample_rate = 8000, wd_num_channels = 1, wd_bits_per_sample = 16,
         wd_num_samples = 4, channel1 = [0, 1000, - 1000, 32767], channel2 = []\<rparr> 12000
       \<noteq> Inl OutOfBounds"
proof -
  let ?x = "\<lparr>wd_sample_rate = 8000, wd_num_channels = 1, wd_bits_per_sample = 16,
         wd_num_samples = 4, channel1 = [0, 1000, - 1000, 32767], channel2 = []\<rparr>"
  have m: "to_uint32 (fmul (to_double (uint (wd_num_samples ?x))) (resample_ratio ?x 12000))
      = Inr 6"
    by code_simp
  have h: "wd_sample_rate ?x \<noteq> 0" "1 \<le> unat (wd_num_samples ?x)" "5 < unat (6 :: 32 word)"
    "unat (wd_num_samples ?x) \<le> length (channel1 ?x)"
    "wd_num_channels ?x = 2 \<longrightarrow> unat (wd_num_samples ?x) \<le> length (channel2 ?x)"
    by simp_all
  have "(\<exists>index0. to_uint32 (of_int \<lfloor>src_index_of (resample_ratio ?x 12000) 5\<rfloor>) = Inr index0
      \<and> unat index0 \<le> 3 \<and> unat (index1_of ?x index0) \<le> 3)
    \<and> resample Int16 ?x 12000 \<noteq> Inl OutOfBounds"
    using resample_indices_in_bounds [OF h(1,2) m h(3,4,5), of Int16]
    by simp blast
  with m show ?thesis by simp
qed

end
